theory Spec2Isabelle
  imports Complex_Main "HOL-Library.AList"
begin

section \<open>JavaScript values\<close>

text \<open>
  Plan steps, tool arguments and tool results are untyped JSON data (\<^verbatim>\<open>any\<close> in the
  TypeScript source).  A value is one of the JSON kinds, or \<^verbatim>\<open>undefined\<close>, which is what
  reading a missing property gives.  Objects are association lists in insertion order
  (the order of keys is never observed by the program).
  An array carries, besides its elements, the named properties that an assignment such as
  \<^verbatim>\<open>toolArgs.url = ...\<close> may attach to it (parsed JSON arrays have none).
  Numbers are rationals: the program only tests them for truthiness, compares them with
  \<^verbatim>\<open>===\<close> and prints them.  A string is the list of the bytes of its UTF-8 encoding, so
  a character outside ASCII is two or three bytes.
\<close>

datatype jv =
    JUndefined
  | JNull
  | JBool bool
  | JNum rat
  | JStr string
  | JArr "jv list" "(string \<times> jv) list"
  | JObj "(string \<times> jv) list"

text \<open>Truthiness, as tested by \<^verbatim>\<open>if (x)\<close>, \<^verbatim>\<open>!x\<close>, \<^verbatim>\<open>x || y\<close>, \<^verbatim>\<open>x && y\<close> and \<^verbatim>\<open>Boolean(x)\<close>.\<close>

fun truthy :: "jv \<Rightarrow> bool" where
  "truthy JUndefined = False"
| "truthy JNull = False"
| "truthy (JBool b) = b"
| "truthy (JNum n) = (n \<noteq> 0)"
| "truthy (JStr s) = (s \<noteq> [])"
| "truthy (JArr xs ps) = True"
| "truthy (JObj kvs) = True"

text \<open>\<^verbatim>\<open>a || b\<close> and \<^verbatim>\<open>a ?? b\<close>.\<close>

definition js_or :: "jv \<Rightarrow> jv \<Rightarrow> jv" where
  "js_or a b = (if truthy a then a else b)"

definition nullish :: "jv \<Rightarrow> bool" where
  "nullish v = (v = JUndefined \<or> v = JNull)"

definition js_nc :: "jv \<Rightarrow> jv \<Rightarrow> jv" where
  "js_nc a b = (if nullish a then b else a)"

text \<open>\<^verbatim>\<open>typeof v === 'object'\<close>, \<^verbatim>\<open>typeof v === 'string'\<close>, \<^verbatim>\<open>typeof v === 'number'\<close>.\<close>

fun typeof_object :: "jv \<Rightarrow> bool" where
  "typeof_object JNull = True"
| "typeof_object (JArr xs ps) = True"
| "typeof_object (JObj kvs) = True"
| "typeof_object v = False"

fun typeof_string :: "jv \<Rightarrow> bool" where
  "typeof_string (JStr s) = True"
| "typeof_string v = False"

fun typeof_number :: "jv \<Rightarrow> bool" where
  "typeof_number (JNum n) = True"
| "typeof_number v = False"

text \<open>
  Property read \<^verbatim>\<open>v?.k\<close>.  It is used for the property names the program reads
  (\<^verbatim>\<open>params\<close>, \<^verbatim>\<open>type\<close>, \<^verbatim>\<open>tool\<close>, \<^verbatim>\<open>url\<close>, \<^verbatim>\<open>selector\<close>, ...): none of them is an array
  index, \<^verbatim>\<open>length\<close> or a member of a built-in prototype, so only the own named properties
  count.  Where the source reads with a plain \<^verbatim>\<open>v.k\<close> the receiver is known not to be
  \<^verbatim>\<open>null\<close> or \<^verbatim>\<open>undefined\<close>, except for \<^verbatim>\<open>step.type\<close>, whose \<^verbatim>\<open>TypeError\<close> is modelled in
  \<open>execStep\<close>.
\<close>

fun getp :: "jv \<Rightarrow> string \<Rightarrow> jv" where
  "getp (JObj kvs) k = (case map_of kvs k of Some v \<Rightarrow> v | None \<Rightarrow> JUndefined)"
| "getp (JArr xs ps) k = (case map_of ps k of Some v \<Rightarrow> v | None \<Rightarrow> JUndefined)"
| "getp v k = JUndefined"

text \<open>Decimal printing of an array index or of a request counter.\<close>

definition digit_char :: "nat \<Rightarrow> char" where
  "digit_char d = ''0123456789'' ! d"

fun show_nat :: "nat \<Rightarrow> string" where
  "show_nat n = (if n < 10 then [digit_char n] else show_nat (n div 10) @ [digit_char (n mod 10)])"

declare show_nat.simps [simp del]

text \<open>
  The own enumerable properties of a value, in order: what \<^verbatim>\<open>Object.keys\<close> counts and what
  an object spread \<^verbatim>\<open>{...v}\<close> copies.
\<close>

fun own_entries :: "jv \<Rightarrow> (string \<times> jv) list" where
  "own_entries (JObj kvs) = kvs"
| "own_entries (JArr xs ps) = zip (map show_nat [0..<length xs]) xs @ ps"
| "own_entries (JStr s) = zip (map show_nat [0..<length s]) (map (\<lambda>c. JStr [c]) s)"
| "own_entries v = []"

text \<open>\<^verbatim>\<open>{...acc, ...v}\<close>: later writes replace earlier ones in place, new keys go last.\<close>

definition spread :: "(string \<times> jv) list \<Rightarrow> jv \<Rightarrow> (string \<times> jv) list" where
  "spread acc v = foldl (\<lambda>a kv. AList.update (fst kv) (snd kv) a) acc (own_entries v)"

text \<open>\<^verbatim>\<open>String(v)\<close>; the printing of a number is a parameter.\<close>

fun join_with :: "string \<Rightarrow> string list \<Rightarrow> string" where
  "join_with sep [] = []"
| "join_with sep [s] = s"
| "join_with sep (s # t # ss) = s @ sep @ join_with sep (t # ss)"

fun js_String :: "(rat \<Rightarrow> string) \<Rightarrow> jv \<Rightarrow> string" where
  "js_String ns JUndefined = ''undefined''"
| "js_String ns JNull = ''null''"
| "js_String ns (JBool b) = (if b then ''true'' else ''false'')"
| "js_String ns (JNum n) = ns n"
| "js_String ns (JStr s) = s"
| "js_String ns (JArr xs ps) =
     join_with '','' (map (\<lambda>x. if x = JUndefined \<or> x = JNull then [] else js_String ns x) xs)"
| "js_String ns (JObj kvs) = ''[object Object]''"

text \<open>
  \<^verbatim>\<open>toLowerCase\<close>.  The letters \<^verbatim>\<open>A\<close> to \<^verbatim>\<open>Z\<close> become \<^verbatim>\<open>a\<close> to \<^verbatim>\<open>z\<close>.  Two characters
  outside ASCII have a lower case with an ASCII letter in it: U+212A (Kelvin sign, bytes
  E2 84 AA) becomes \<^verbatim>\<open>k\<close>, and U+0130 (capital I with dot, bytes C4 B0) becomes \<^verbatim>\<open>i\<close>
  followed by U+0307 (bytes CC 87).  Every other character outside ASCII has a lower case
  outside ASCII and is left as it is: the program only tests a lower-cased name against
  ASCII names, prefixes and substrings, and these tests come out the same.
\<close>

definition lower_char :: "char \<Rightarrow> char" where
  "lower_char c =
     (case map_of (zip ''ABCDEFGHIJKLMNOPQRSTUVWXYZ'' ''abcdefghijklmnopqrstuvwxyz'') c of
        Some l \<Rightarrow> l
      | None \<Rightarrow> c)"

fun toLowerCase :: "string \<Rightarrow> string" where
  "toLowerCase (a # b # c # s) =
     (if [a, b, c] = [CHR 0xE2, CHR 0x84, CHR 0xAA] then CHR 0x6B # toLowerCase s
      else if [a, b] = [CHR 0xC4, CHR 0xB0] then [CHR 0x69, CHR 0xCC, CHR 0x87] @ toLowerCase (c # s)
      else lower_char a # toLowerCase (b # c # s))"
| "toLowerCase [a, b] =
     (if [a, b] = [CHR 0xC4, CHR 0xB0] then [CHR 0x69, CHR 0xCC, CHR 0x87]
      else [lower_char a, lower_char b])"
| "toLowerCase [a] = [lower_char a]"
| "toLowerCase [] = []"

declare toLowerCase.simps [simp del]

text \<open>\<^verbatim>\<open>startsWith\<close> and \<^verbatim>\<open>includes\<close> on strings.\<close>

definition startsWith :: "string \<Rightarrow> string \<Rightarrow> bool" where
  "startsWith s p = (take (length p) s = p)"

fun includes_str :: "string \<Rightarrow> string \<Rightarrow> bool" where
  "includes_str [] sub = (sub = [])"
| "includes_str (c # cs) sub = (startsWith (c # cs) sub \<or> includes_str cs sub)"

definition quoted :: "string \<Rightarrow> string" where
  "quoted s = CHR 0x27 # s @ [CHR 0x27]"

section \<open>The plan executor (\<^verbatim>\<open>executePlan\<close>)\<close>

text \<open>
  What a step does to the outside is a call of one of the collaborators below; the world
  they act on is an abstract state \<open>'w\<close> threaded through the run.  A call that rejects
  gives \<open>Inl\<close> of the message of the error (what the \<^verbatim>\<open>catch\<close> block of \<^verbatim>\<open>executePlan\<close>
  reads with \<^verbatim>\<open>error?.message ?? String(error)\<close>).  \<^verbatim>\<open>mcp.handleAction\<close> catches every
  error itself and always returns a value.
\<close>

record 'w env =
  numToString :: "rat \<Rightarrow> string"
  isConnected :: "'w \<Rightarrow> bool"
  callTool :: "jv \<Rightarrow> jv \<Rightarrow> 'w \<Rightarrow> (string + jv) \<times> 'w"
  handleAction :: "jv \<Rightarrow> 'w \<Rightarrow> jv \<times> 'w"
  tabsQuery :: "jv \<Rightarrow> 'w \<Rightarrow> (string + jv) \<times> 'w"

text \<open>
  The observable actions of a run, in order: the messages \<^verbatim>\<open>notifyPopup\<close> sends (the step
  object of a payload is identified by its index) and the calls made to the two backends.
\<close>

datatype progress_status = Running | Completed | Failed

datatype event =
    LLM_PROGRESS progress_status nat jv
  | LLM_WARNING string jv
  | LLM_DEBUG nat jv jv
  | LocalAction jv
  | BridgeCall jv jv

datatype ExecutionResult = Success jv | Failure string

fun success :: "ExecutionResult \<Rightarrow> bool" where
  "success (Success r) = True"
| "success (Failure e) = False"

type_synonym 'w outcome = "(string + jv) \<times> 'w \<times> event list"

definition local_action :: "'w env \<Rightarrow> jv \<Rightarrow> 'w \<Rightarrow> 'w outcome" where
  "local_action env a w = (case handleAction env a w of (r, w') \<Rightarrow> (Inr r, w', [LocalAction a]))"

definition bridge_call :: "'w env \<Rightarrow> jv \<Rightarrow> jv \<Rightarrow> 'w \<Rightarrow> 'w outcome" where
  "bridge_call env name args w =
     (case callTool env name args w of (r, w') \<Rightarrow> (r, w', [BridgeCall name args]))"

subsection \<open>Tab context and the local page listing\<close>

definition getActiveTabContext :: "'w env \<Rightarrow> 'w \<Rightarrow> (string + jv) \<times> 'w" where
  "getActiveTabContext env w =
     (case tabsQuery env (JObj [(''active'', JBool True), (''currentWindow'', JBool True)]) w of
        (Inl e, w') \<Rightarrow> (Inl e, w')
      | (Inr tabs, w') \<Rightarrow>
          (let tab = (case tabs of JArr (t # ts) ps \<Rightarrow> t | _ \<Rightarrow> JUndefined) in
           if \<not> truthy tab then (Inr JNull, w')
           else (Inr (JObj [(''id'', getp tab ''id''),
                            (''url'', js_nc (getp tab ''url'') JUndefined),
                            (''title'', js_nc (getp tab ''title'') JUndefined)]), w')))"

definition pageLine :: "(rat \<Rightarrow> string) \<Rightarrow> jv \<Rightarrow> nat \<Rightarrow> jv \<Rightarrow> string" where
  "pageLine ns activeTabId index tab =
     (let url = js_nc (getp tab ''url'') (JStr ''about:blank'');
          title = (if truthy (getp tab ''title'')
                   then '' ('' @ js_String ns (getp tab ''title'') @ '')'' else []);
          isSelected = (truthy (getp tab ''active'')
                        \<or> (typeof_number activeTabId \<and> getp tab ''id'' = activeTabId))
      in show_nat index @ '': '' @ js_String ns url @ title
           @ (if isSelected then '' [selected]'' else []))"

definition buildLocalPagesSummary :: "'w env \<Rightarrow> jv \<Rightarrow> 'w \<Rightarrow> (string + jv) \<times> 'w" where
  "buildLocalPagesSummary env activeTabId w =
     (case tabsQuery env (JObj []) w of
        (Inl e, w') \<Rightarrow> (Inl e, w')
      | (Inr tabs, w') \<Rightarrow>
          (case tabs of
             JArr (t # ts) ps \<Rightarrow>
               (Inr (JStr (join_with [CHR 0x0A]
                  ([''# list_pages response'', ''## Pages'']
                   @ map (\<lambda>i. pageLine (numToString env) activeTabId i ((t # ts) ! i))
                       [0..<length (t # ts)]))), w')
           | _ \<Rightarrow> (Inr JNull, w')))"

subsection \<open>Action Resolver: tool name and inference\<close>

text \<open>The chain of \<^verbatim>\<open>||\<close> that reads the tool name from the encodings, first truthy wins.\<close>

definition toolNameOf :: "jv \<Rightarrow> jv \<Rightarrow> jv" where
  "toolNameOf step mergedParams =
     js_or (getp mergedParams ''tool'')
    (js_or (getp mergedParams ''toolName'')
    (js_or (getp mergedParams ''tool_name'')
    (js_or (getp mergedParams ''name'')
    (js_or (getp step ''tool'')
    (js_or (getp step ''toolName'')
           (getp step ''tool_name''))))))"

text \<open>The inference from the shape of the parameters: the inferred name and arguments.\<close>

definition inferTool :: "jv \<Rightarrow> (string \<times> jv) option" where
  "inferTool mergedParams =
     (if truthy (getp mergedParams ''selector'') then
        (if getp mergedParams ''value'' \<noteq> JUndefined
         then Some (''extension_fill_selector'',
                JObj [(''selector'', getp mergedParams ''selector''),
                      (''value'', getp mergedParams ''value'')])
         else Some (''extension_click_selector'',
                JObj [(''selector'', getp mergedParams ''selector'')]))
      else if truthy (getp mergedParams ''url'') then
        Some (''navigate_page'', JObj [(''type'', JStr ''url''), (''url'', getp mergedParams ''url'')])
      else if truthy (getp mergedParams ''code'') then
        Some (''extension_evaluate_script'', JObj [(''code'', getp mergedParams ''code'')])
      else if truthy (getp mergedParams ''text'') \<and> typeof_string (getp mergedParams ''text'') then
        Some (''extension_fill_selector'',
          JObj [(''selector'', js_nc (getp mergedParams ''selector'') (JStr ''input'')),
                (''value'', getp mergedParams ''text'')])
      else None)"

text \<open>The text of the warning; its dash is the three bytes of U+2014 in UTF-8.\<close>

definition missing_name_message :: string where
  "missing_name_message =
     ''CALL_TOOL missing tool name '' @ [CHR 0xE2, CHR 0x80, CHR 0x94] @ '' inferring tool''"

text \<open>
  Name resolution: the name, the arguments fixed by an inference (if one fired) and the
  warning it sends; or the error \<^verbatim>\<open>call-tool-missing-name\<close>.
\<close>

definition resolveToolName :: "jv \<Rightarrow> jv \<Rightarrow> string + (jv \<times> jv option \<times> event list)" where
  "resolveToolName step mergedParams =
     (let toolName = toolNameOf step mergedParams in
      if \<not> truthy toolName then
        (case inferTool mergedParams of
           Some (inferredName, inferredArgs) \<Rightarrow>
             Inr (JStr inferredName, Some inferredArgs,
                  [LLM_WARNING missing_name_message (JStr inferredName)])
         | None \<Rightarrow> Inl ''call-tool-missing-name'')
      else Inr (toolName, None, []))"

subsection \<open>Action Resolver: argument normalization\<close>

definition argsBagOf :: "jv \<Rightarrow> jv \<Rightarrow> jv" where
  "argsBagOf step mergedParams =
     js_or (getp mergedParams ''arguments'')
    (js_or (getp mergedParams ''tool_params'')
    (js_or (getp mergedParams ''toolParams'')
    (js_or (getp mergedParams ''args'')
    (js_or (getp step ''arguments'')
    (js_or (getp step ''args'')
    (js_or (getp step ''tool_params'')
    (js_or (getp step ''toolParams'')
           (JObj []))))))))"

text \<open>
  \<^verbatim>\<open>toolArgs.url = v\<close> in strict mode: an object or an array takes the property, a
  primitive raises a \<^verbatim>\<open>TypeError\<close>.
\<close>

fun kind_name :: "jv \<Rightarrow> string" where
  "kind_name (JStr s) = ''string''"
| "kind_name (JNum n) = ''number''"
| "kind_name (JBool b) = ''boolean''"
| "kind_name v = ''object''"

definition assign_prop :: "(rat \<Rightarrow> string) \<Rightarrow> jv \<Rightarrow> string \<Rightarrow> jv \<Rightarrow> string + jv" where
  "assign_prop ns target k v =
     (case target of
        JObj kvs \<Rightarrow> Inr (JObj (AList.update k v kvs))
      | JArr xs ps \<Rightarrow> Inr (JArr xs (AList.update k v ps))
      | _ \<Rightarrow> Inl (''Cannot create property '' @ quoted k @ '' on '' @ kind_name target @ '' ''
                  @ quoted (js_String ns target)))"

text \<open>\<^verbatim>\<open>if (c) toolArgs = {...toolArgs, k: v}\<close> and \<^verbatim>\<open>if (c) toolArgs = {...toolArgs, ...v}\<close>.\<close>

definition set_if :: "bool \<Rightarrow> string \<Rightarrow> jv \<Rightarrow> jv \<Rightarrow> jv" where
  "set_if c k v toolArgs = (if c then JObj (AList.update k v (spread [] toolArgs)) else toolArgs)"

definition spread_if :: "bool \<Rightarrow> jv \<Rightarrow> jv \<Rightarrow> jv" where
  "spread_if c v toolArgs = (if c then JObj (spread (spread [] toolArgs) v) else toolArgs)"

definition normalizeArgs :: "(rat \<Rightarrow> string) \<Rightarrow> jv \<Rightarrow> jv \<Rightarrow> jv option \<Rightarrow> string + jv" where
  "normalizeArgs ns step mergedParams inferred =
     (let toolArgs0 = (case inferred of Some a \<Rightarrow> a | None \<Rightarrow> argsBagOf step mergedParams) in
      if \<not> truthy toolArgs0 \<or> own_entries toolArgs0 = [] then
        Inr (spread_if (truthy (getp mergedParams ''tool_params'')
                          \<and> typeof_object (getp mergedParams ''tool_params''))
                 (getp mergedParams ''tool_params'')
            (spread_if (truthy (getp step ''tool_params'') \<and> typeof_object (getp step ''tool_params''))
                 (getp step ''tool_params'')
            (set_if (truthy (getp step ''code'')) ''code'' (getp step ''code'')
            (set_if (truthy (getp step ''value'')) ''value'' (getp step ''value'')
            (set_if (truthy (getp step ''selector'')) ''selector'' (getp step ''selector'')
            (set_if (truthy (getp mergedParams ''url'')) ''url'' (getp mergedParams ''url'')
            (set_if (truthy (getp step ''url'')) ''url'' (getp step ''url'') toolArgs0)))))))
      else
        (case (if truthy (getp step ''url'')
               then assign_prop ns toolArgs0 ''url'' (getp step ''url'') else Inr toolArgs0) of
           Inl e \<Rightarrow> Inl e
         | Inr toolArgs1 \<Rightarrow>
             (if truthy (getp mergedParams ''url'')
              then assign_prop ns toolArgs1 ''url'' (getp mergedParams ''url'') else Inr toolArgs1)))"

subsection \<open>Dispatch Policy\<close>

text \<open>The helper \<^verbatim>\<open>extract\<close>: the argument \<open>k\<close> from the bag, else from the step, else from params.\<close>

definition extract_arg :: "jv \<Rightarrow> jv \<Rightarrow> jv \<Rightarrow> string \<Rightarrow> jv" where
  "extract_arg toolArgs step mergedParams k =
     (if truthy toolArgs \<and> getp toolArgs k \<noteq> JUndefined then getp toolArgs k
      else js_nc (getp step k) (getp mergedParams k))"

definition navigate :: "'w env \<Rightarrow> jv \<Rightarrow> jv \<Rightarrow> 'w \<Rightarrow> 'w outcome" where
  "navigate env url tabId w =
     local_action env (JObj [(''type'', JStr ''NAVIGATE''), (''url'', url), (''tabId'', tabId)]) w"

definition forward :: "'w env \<Rightarrow> jv \<Rightarrow> jv \<Rightarrow> 'w \<Rightarrow> 'w outcome" where
  "forward env toolName toolArgs w =
     (if \<not> isConnected env w then (Inl ''mcp-bridge-not-connected'', w, [])
      else bridge_call env toolName toolArgs w)"

definition selectPage :: "'w env \<Rightarrow> (string \<Rightarrow> jv) \<Rightarrow> jv \<Rightarrow> 'w \<Rightarrow> 'w outcome" where
  "selectPage env ex tabId w =
     (let url = js_nc (js_nc (ex ''url'') (ex ''pageUrl'')) (ex ''page'') in
      if \<not> truthy url then (Inl ''select-page-missing-url'', w, [])
      else navigate env url tabId w)"

definition newPage :: "'w env \<Rightarrow> (string \<Rightarrow> jv) \<Rightarrow> jv \<Rightarrow> jv \<Rightarrow> 'w \<Rightarrow> 'w outcome" where
  "newPage env ex tabId toolArgs w =
     (let url = ex ''url'';
          forceNew = (truthy (ex ''forceNew'') \<or> truthy (ex ''force_new'')) in
      if \<not> truthy url then
        (Inl ''blocked-new-page-without-url'', w,
         [LLM_WARNING ''Blocked request to open a new page without URL.'' JUndefined])
      else if forceNew then
        (if \<not> isConnected env w then
           (Inl ''blocked-new-page-force-new-bridge-off'', w,
            [LLM_WARNING ''Attempted force-new but MCP bridge not connected; blocked.'' JUndefined])
         else bridge_call env (JStr ''new_page'') toolArgs w)
      else navigate env url tabId w)"

definition listPages :: "'w env \<Rightarrow> jv \<Rightarrow> 'w \<Rightarrow> 'w outcome" where
  "listPages env tabContext w =
     (case buildLocalPagesSummary env (getp tabContext ''id'') w of
        (Inl e, w') \<Rightarrow> (Inl e, w', [])
      | (Inr summary, w') \<Rightarrow>
          (let summaryText = js_nc summary
                 (JStr (''# list_pages response'' @ [CHR 0x0A] @ ''## Pages'' @ [CHR 0x0A] @ ''0: ''
                    @ js_String (numToString env) (js_nc (getp tabContext ''url'') (JStr ''about:blank''))
                    @ '' [selected]''))
           in (Inr (JObj [(''content'',
                      JArr [JObj [(''type'', JStr ''text''), (''text'', summaryText)]] [])]), w', [])))"

definition dispatch ::
  "'w env \<Rightarrow> jv \<Rightarrow> jv \<Rightarrow> jv \<Rightarrow> jv \<Rightarrow> jv \<Rightarrow> jv \<Rightarrow> 'w \<Rightarrow> 'w outcome" where
  "dispatch env tabId tabContext step mergedParams toolName toolArgs w =
     (let lname = toLowerCase (js_String (numToString env) (js_or toolName (JStr [])));
          isExtensionTool = startsWith lname ''extension_'';
          isPagesTool = (startsWith lname ''pages_'' \<or> lname = ''new_page'' \<or> lname = ''navigate_page''
                         \<or> lname = ''list_pages'' \<or> lname = ''select_page'');
          ex = extract_arg toolArgs step mergedParams
      in
      if isPagesTool then
        (if lname = ''new_page'' then newPage env ex tabId toolArgs w
         else if lname = ''navigate_page'' \<or> lname = ''pages_navigate'' \<or> lname = ''pages_navigate_page'' then
           (if \<not> truthy (ex ''url'') then (Inl ''navigate-missing-url'', w, [])
            else navigate env (ex ''url'') tabId w)
         else if lname = ''list_pages'' then listPages env tabContext w
         else if lname = ''select_page'' \<or> lname = ''extension_select_page'' then selectPage env ex tabId w
         else forward env toolName toolArgs w)
      else if isExtensionTool then
        (if includes_str lname ''click'' \<and> truthy (ex ''selector'') then
           local_action env (JObj [(''type'', JStr ''CLICK''), (''selector'', ex ''selector''),
                                   (''tabId'', tabId)]) w
         else if includes_str lname ''fill'' \<and> truthy (ex ''selector'') then
           local_action env (JObj [(''type'', JStr ''FILL''), (''selector'', ex ''selector''),
                                   (''value'', js_nc (js_nc (ex ''value'') (ex ''text'')) (ex ''v'')),
                                   (''tabId'', tabId)]) w
         else if includes_str lname ''evaluate'' \<and> truthy (ex ''code'') then
           local_action env (JObj [(''type'', JStr ''EVALUATE_SCRIPT''), (''code'', ex ''code''),
                                   (''tabId'', tabId)]) w
         else if includes_str lname ''select_page'' then selectPage env ex tabId w
         else forward env toolName toolArgs w)
      else forward env toolName toolArgs w)"

text \<open>The check of the tool's result: an error flag turns it into a thrown error.\<close>

definition messageFromContent :: "jv \<Rightarrow> jv" where
  "messageFromContent actionResult =
     (case getp actionResult ''content'' of
        JArr xs ps \<Rightarrow>
          (case find (\<lambda>part. truthy part \<and> typeof_string (getp part ''text'')) xs of
             Some part \<Rightarrow> getp part ''text''
           | None \<Rightarrow> JUndefined)
      | _ \<Rightarrow> JUndefined)"

definition checkResult :: "(rat \<Rightarrow> string) \<Rightarrow> jv \<Rightarrow> string + jv" where
  "checkResult ns actionResult =
     (if truthy actionResult
         \<and> (truthy (getp actionResult ''isError'') \<or> getp actionResult ''success'' = JBool False)
      then Inl (js_String ns
             (js_or (messageFromContent actionResult)
             (js_or (getp actionResult ''error'')
             (js_or (getp actionResult ''message'') (JStr ''CALL_TOOL failed'')))))
      else Inr actionResult)"

subsection \<open>One step, and the loop over the plan\<close>

definition mergedParamsOf :: "jv \<Rightarrow> jv" where
  "mergedParamsOf step =
     (if truthy (getp step ''params'') \<and> typeof_object (getp step ''params'')
      then getp step ''params'' else JObj [])"

text \<open>
  The Action Resolver on a \<^verbatim>\<open>CALL_TOOL\<close> step: the resolved call (tool name and
  arguments) or the error, with the warning an inference sends.
\<close>

definition resolveCall ::
  "(rat \<Rightarrow> string) \<Rightarrow> jv \<Rightarrow> jv \<Rightarrow> (string + (jv \<times> jv)) \<times> event list" where
  "resolveCall ns step mergedParams =
     (case resolveToolName step mergedParams of
        Inl e \<Rightarrow> (Inl e, [])
      | Inr (toolName, inferred, evs0) \<Rightarrow>
          (case normalizeArgs ns step mergedParams inferred of
             Inl e \<Rightarrow> (Inl e, evs0)
           | Inr toolArgs \<Rightarrow> (Inr (toolName, toolArgs), evs0)))"

definition callToolStep :: "'w env \<Rightarrow> jv \<Rightarrow> jv \<Rightarrow> nat \<Rightarrow> jv \<Rightarrow> jv \<Rightarrow> 'w \<Rightarrow> 'w outcome" where
  "callToolStep env tabId tabContext index step mergedParams w =
     (case resolveCall (numToString env) step mergedParams of
        (Inl e, evs0) \<Rightarrow> (Inl e, w, evs0)
      | (Inr (toolName, toolArgs), evs0) \<Rightarrow>
          (case dispatch env tabId tabContext step mergedParams toolName toolArgs w of
             (Inl e, w', evs) \<Rightarrow> (Inl e, w', evs0 @ [LLM_DEBUG index toolName toolArgs] @ evs)
           | (Inr actionResult, w', evs) \<Rightarrow>
               (checkResult (numToString env) actionResult, w',
                evs0 @ [LLM_DEBUG index toolName toolArgs] @ evs)))"

text \<open>
  The body of the \<^verbatim>\<open>try\<close> block for one step.  Reading \<^verbatim>\<open>step.type\<close> of a \<^verbatim>\<open>null\<close> step
  raises a \<^verbatim>\<open>TypeError\<close>, caught like any other error.
\<close>

definition execStep :: "'w env \<Rightarrow> jv \<Rightarrow> jv \<Rightarrow> nat \<Rightarrow> jv \<Rightarrow> 'w \<Rightarrow> 'w outcome" where
  "execStep env tabId tabContext index step w =
     (let mergedParams = mergedParamsOf step in
      if nullish step then
        (Inl (''Cannot read properties of '' @ js_String (numToString env) step
              @ '' (reading '' @ quoted ''type'' @ '')''), w, [])
      else if getp step ''type'' = JStr ''CALL_TOOL'' then
        callToolStep env tabId tabContext index step mergedParams w
      else
        local_action env
          (JObj (AList.update ''tabId'' tabId
                  (AList.update ''type'' (getp step ''type'') (spread [] mergedParams)))) w)"

text \<open>
  The \<^verbatim>\<open>for\<close> loop from \<open>index\<close> on: the results pushed, the final world and the events.
  A failed step pushes its failure and leaves the loop (\<^verbatim>\<open>break\<close>).
\<close>

fun runSteps ::
  "'w env \<Rightarrow> jv \<Rightarrow> jv \<Rightarrow> nat \<Rightarrow> jv list \<Rightarrow> 'w \<Rightarrow> ExecutionResult list \<times> 'w \<times> event list" where
  "runSteps env tabId tabContext index [] w = ([], w, [])"
| "runSteps env tabId tabContext index (step # rest) w =
     (case execStep env tabId tabContext index step w of
        (Inl e, w', evs) \<Rightarrow>
          ([Failure e], w',
           LLM_PROGRESS Running index JUndefined # evs @ [LLM_PROGRESS Failed index (JStr e)])
      | (Inr r, w', evs) \<Rightarrow>
          (case runSteps env tabId tabContext (Suc index) rest w' of
             (rs, w'', evs') \<Rightarrow>
               (Success r # rs, w'',
                LLM_PROGRESS Running index JUndefined # evs @ LLM_PROGRESS Completed index r # evs')))"

text \<open>
  \<^verbatim>\<open>executePlan(plan, tabId)\<close>.  The tab context is read before the loop, outside any
  \<^verbatim>\<open>try\<close>: if that read rejects, the whole call rejects and no result list is returned.
\<close>

text \<open>The indices of the steps started, read off the \<^verbatim>\<open>running\<close> progress messages.\<close>

fun started :: "event list \<Rightarrow> nat list" where
  "started [] = []"
| "started (LLM_PROGRESS Running i v # evs) = i # started evs"
| "started (e # evs) = started evs"

definition executePlan ::
  "'w env \<Rightarrow> jv list \<Rightarrow> jv \<Rightarrow> 'w \<Rightarrow> (string + ExecutionResult list) \<times> 'w \<times> event list" where
  "executePlan env plan tabId w =
     (case getActiveTabContext env w of
        (Inl e, w') \<Rightarrow> (Inl e, w', [])
      | (Inr tabContext, w') \<Rightarrow>
          (case runSteps env tabId tabContext 0 plan w' of
             (rs, w'', evs) \<Rightarrow> (Inr rs, w'', evs)))"

subsection \<open>Failed steps\<close>

text \<open>
  A backend value reports a failure when it carries the error flag the executor tests at the
  end of its \<^verbatim>\<open>CALL_TOOL\<close> branch: \<^verbatim>\<open>actionResult && (actionResult.isError ||
  actionResult.success === false)\<close>.  A step has failed when its recorded result is a
  failure, or is a success whose value reports a failure.  The second case can only come
  from a step that is not a \<^verbatim>\<open>CALL_TOOL\<close>: the value of such a step is pushed without the
  test, and \<open>unchecked_failure step r\<close> says that \<open>r\<close> is such a result of \<open>step\<close>.
\<close>

definition reports_failure :: "jv \<Rightarrow> bool" where
  "reports_failure actionResult \<longleftrightarrow>
     truthy actionResult
     \<and> (truthy (getp actionResult ''isError'') \<or> getp actionResult ''success'' = JBool False)"

fun failed :: "ExecutionResult \<Rightarrow> bool" where
  "failed (Failure e) = True"
| "failed (Success r) = reports_failure r"

definition unchecked_failure :: "jv \<Rightarrow> ExecutionResult \<Rightarrow> bool" where
  "unchecked_failure step r \<longleftrightarrow> getp step ''type'' \<noteq> JStr ''CALL_TOOL'' \<and> success r \<and> failed r"

section \<open>The bridge client (\<^verbatim>\<open>MCPBridge\<close>)\<close>

text \<open>
  The fields of the class, followed by the part of the browser the class acts on: the
  table of armed timers (\<^verbatim>\<open>setTimeout\<close> adds a handle with its callback, \<^verbatim>\<open>clearTimeout\<close>
  removes it, a timer that fires is removed and runs its callback) and the ready state of
  every WebSocket created so far.  The \<^verbatim>\<open>resolve\<close>/\<^verbatim>\<open>reject\<close> pair stored in a pending
  entry settles the promise of the request the entry is keyed by, so an entry keeps its
  timer handle only, and an effect names the request by its id.  \<open>nextId\<close> is a JavaScript
  number; it holds a whole number, which \<^verbatim>\<open>nextId++\<close> increments as long as the result is a
  double (see \<open>increment\<close> below).  Status and notification listeners are identified by numbers; a call
  of a listener is recorded as an effect, and listeners are taken not to call back into
  the bridge while they run.
\<close>

datatype MCPBridgeStatus = Connecting | Connected | Disconnected

datatype ready_state = WS_CONNECTING | WS_OPEN | WS_CLOSING | WS_CLOSED

datatype timer_callback = RequestTimeout string | Reconnect

record PendingRequest =
  timeoutId :: nat

record bridge =
  url :: "string option"
  status :: MCPBridgeStatus
  socket :: "nat option"
  reconnectTimer :: "nat option"
  nextId :: nat
  pending :: "(string \<times> PendingRequest) list"
  statusListeners :: "nat list"
  notificationListeners :: "nat list"
  timers :: "(nat \<times> timer_callback) list"
  nextTimer :: nat
  readyState :: "nat \<Rightarrow> ready_state"
  nextSocket :: nat

text \<open>
  What the bridge does to the outside, in order: settling the promise of a request,
  calling a listener, creating, closing and writing to a socket, and the console warning
  for a frame that does not parse.
\<close>

datatype effect =
    Resolved string jv
  | Rejected string string
  | StatusNotified nat MCPBridgeStatus
  | NotificationSent nat jv
  | SocketCreated nat string
  | SocketClose nat
  | SocketSend nat jv
  | ConsoleWarn string

text \<open>
  The library functions the class calls: \<^verbatim>\<open>JSON.parse\<close> (\<open>None\<close> when it throws), the
  \<^verbatim>\<open>WebSocket\<close> constructor (the message of the error when it throws) and the printing of
  a number.
\<close>

record host =
  jsonParse :: "string \<Rightarrow> jv option"
  wsConstructError :: "string \<Rightarrow> string option"
  numStr :: "rat \<Rightarrow> string"

definition RECONNECT_DELAY_MS :: nat where
  "RECONNECT_DELAY_MS = 2000"

definition REQUEST_TIMEOUT_MS :: nat where
  "REQUEST_TIMEOUT_MS = 30000"

text \<open>
  \<^verbatim>\<open>n++\<close> on a number that holds a whole number: the sum is exact below \<open>2^53 =
  9007199254740992\<close>; \<open>2^53 + 1\<close> is not a double and rounds back to \<open>2^53\<close>, so a counter
  that has reached \<open>2^53\<close> stays there.
\<close>

definition increment :: "nat \<Rightarrow> nat" where
  "increment n = (if n < 9007199254740992 then Suc n else n)"

text \<open>The delay, in milliseconds, a timer with the given callback is armed with.\<close>

fun delay_of :: "timer_callback \<Rightarrow> nat" where
  "delay_of (RequestTimeout rid) = REQUEST_TIMEOUT_MS"
| "delay_of Reconnect = RECONNECT_DELAY_MS"

text \<open>
  The characters \<^verbatim>\<open>String.prototype.trim\<close> strips, each as its UTF-8 bytes: the white
  space of ECMAScript (tab, vertical tab, form feed, space, U+00A0, U+FEFF and the other
  space separators U+1680, U+2000 to U+200A, U+202F, U+205F, U+3000) and its line
  terminators (line feed, carriage return, U+2028, U+2029).
\<close>

definition white_space1 :: "char list" where
  "white_space1 = [CHR 0x09, CHR 0x0A, CHR 0x0B, CHR 0x0C, CHR 0x0D, CHR 0x20]"

definition white_space2 :: "(char \<times> char) list" where
  "white_space2 = [(CHR 0xC2, CHR 0xA0)]"

definition white_space3 :: "(char \<times> char \<times> char) list" where
  "white_space3 =
     [(CHR 0xE1, CHR 0x9A, CHR 0x80),
      (CHR 0xE2, CHR 0x80, CHR 0x80), (CHR 0xE2, CHR 0x80, CHR 0x81), (CHR 0xE2, CHR 0x80, CHR 0x82),
      (CHR 0xE2, CHR 0x80, CHR 0x83), (CHR 0xE2, CHR 0x80, CHR 0x84), (CHR 0xE2, CHR 0x80, CHR 0x85),
      (CHR 0xE2, CHR 0x80, CHR 0x86), (CHR 0xE2, CHR 0x80, CHR 0x87), (CHR 0xE2, CHR 0x80, CHR 0x88),
      (CHR 0xE2, CHR 0x80, CHR 0x89), (CHR 0xE2, CHR 0x80, CHR 0x8A),
      (CHR 0xE2, CHR 0x80, CHR 0xA8), (CHR 0xE2, CHR 0x80, CHR 0xA9), (CHR 0xE2, CHR 0x80, CHR 0xAF),
      (CHR 0xE2, CHR 0x81, CHR 0x9F),
      (CHR 0xE3, CHR 0x80, CHR 0x80),
      (CHR 0xEF, CHR 0xBB, CHR 0xBF)]"

definition white_space :: "string list" where
  "white_space =
     map (\<lambda>a. [a]) white_space1
     @ map (\<lambda>(a, b). [a, b]) white_space2
     @ map (\<lambda>(a, b, c). [a, b, c]) white_space3"

text \<open>
  Stripping at the start; stripping at the end works on the reversed string, where a
  character is its bytes in reverse; \<^verbatim>\<open>trim\<close> does both.
\<close>

fun trimStart :: "string \<Rightarrow> string" where
  "trimStart (a # b # c # s) =
     (if a \<in> set white_space1 then trimStart (b # c # s)
      else if (a, b) \<in> set white_space2 then trimStart (c # s)
      else if (a, b, c) \<in> set white_space3 then trimStart s
      else a # b # c # s)"
| "trimStart [a, b] =
     (if a \<in> set white_space1 then trimStart [b]
      else if (a, b) \<in> set white_space2 then []
      else [a, b])"
| "trimStart [a] = (if a \<in> set white_space1 then [] else [a])"
| "trimStart [] = []"

fun trimEndRev :: "string \<Rightarrow> string" where
  "trimEndRev (c # b # a # s) =
     (if c \<in> set white_space1 then trimEndRev (b # a # s)
      else if (b, c) \<in> set white_space2 then trimEndRev (a # s)
      else if (a, b, c) \<in> set white_space3 then trimEndRev s
      else c # b # a # s)"
| "trimEndRev [c, b] =
     (if c \<in> set white_space1 then trimEndRev [b]
      else if (b, c) \<in> set white_space2 then []
      else [c, b])"
| "trimEndRev [c] = (if c \<in> set white_space1 then [] else [c])"
| "trimEndRev [] = []"

definition trimEnd :: "string \<Rightarrow> string" where
  "trimEnd s = rev (trimEndRev (rev s))"

definition trim :: "string \<Rightarrow> string" where
  "trim s = trimEnd (trimStart s)"

definition normalizeUrl :: "string option \<Rightarrow> string option" where
  "normalizeUrl v =
     (case v of
        None \<Rightarrow> None
      | Some s \<Rightarrow> (let trimmed = trim s in if length trimmed \<noteq> 0 then Some trimmed else None))"

text \<open>\<^verbatim>\<open>!this.url\<close>: no URL, or an empty one.\<close>

definition no_url :: "bridge \<Rightarrow> bool" where
  "no_url b = (case url b of None \<Rightarrow> True | Some u \<Rightarrow> u = [])"

definition initial :: bridge where
  "initial = \<lparr> url = None, status = Disconnected, socket = None, reconnectTimer = None,
               nextId = 1, pending = [], statusListeners = [], notificationListeners = [],
               timers = [], nextTimer = 0, readyState = (\<lambda>h. WS_CLOSED), nextSocket = 0 \<rparr>"

definition getUrl :: "bridge \<Rightarrow> string option" where
  "getUrl b = url b"

definition getStatus :: "bridge \<Rightarrow> MCPBridgeStatus" where
  "getStatus b = status b"

definition bridgeIsConnected :: "bridge \<Rightarrow> bool" where
  "bridgeIsConnected b = (status b = Connected)"

definition clearTimeout :: "nat \<Rightarrow> bridge \<Rightarrow> bridge" where
  "clearTimeout h b = b\<lparr>timers := AList.delete h (timers b)\<rparr>"

definition setTimeout :: "timer_callback \<Rightarrow> bridge \<Rightarrow> nat \<times> bridge" where
  "setTimeout cb b =
     (nextTimer b, b\<lparr>timers := timers b @ [(nextTimer b, cb)], nextTimer := Suc (nextTimer b)\<rparr>)"

definition updateStatus :: "MCPBridgeStatus \<Rightarrow> bridge \<Rightarrow> bridge \<times> effect list" where
  "updateStatus next b =
     (if status b = next then (b, [])
      else (b\<lparr>status := next\<rparr>, map (\<lambda>l. StatusNotified l next) (statusListeners b)))"

definition clearReconnectTimer :: "bridge \<Rightarrow> bridge" where
  "clearReconnectTimer b =
     (case reconnectTimer b of
        None \<Rightarrow> b
      | Some h \<Rightarrow> (clearTimeout h b)\<lparr>reconnectTimer := None\<rparr>)"

definition scheduleReconnect :: "bridge \<Rightarrow> bridge" where
  "scheduleReconnect b =
     (if reconnectTimer b \<noteq> None \<or> no_url b then b
      else (case setTimeout Reconnect b of (h, b') \<Rightarrow> b'\<lparr>reconnectTimer := Some h\<rparr>))"

text \<open>
  The loop of \<^verbatim>\<open>teardown\<close> over the pending entries: each is rejected, its timer
  cleared and the entry deleted.
\<close>

fun rejectAll :: "string \<Rightarrow> (string \<times> PendingRequest) list \<Rightarrow> bridge \<Rightarrow> bridge \<times> effect list" where
  "rejectAll msg [] b = (b, [])"
| "rejectAll msg ((rid, p) # rest) b =
     (case rejectAll msg rest
             ((clearTimeout (timeoutId p) b)\<lparr>pending := AList.delete rid (pending b)\<rparr>) of
        (b', effs) \<Rightarrow> (b', Rejected rid msg # effs))"

text \<open>\<^verbatim>\<open>socket.close()\<close>: an open or connecting socket starts closing.\<close>

definition closeSocket :: "nat \<Rightarrow> bridge \<Rightarrow> bridge \<times> effect list" where
  "closeSocket h b =
     (b\<lparr>readyState := (readyState b)
          (h := (if readyState b h = WS_CLOSED then WS_CLOSED else WS_CLOSING))\<rparr>,
      [SocketClose h])"

definition teardown :: "string option \<Rightarrow> bool \<Rightarrow> bridge \<Rightarrow> bridge \<times> effect list" where
  "teardown error suppressReconnect b =
     (case (case socket b of Some h \<Rightarrow> closeSocket h b | None \<Rightarrow> (b, [])) of
        (b1, effs1) \<Rightarrow>
          (case updateStatus Disconnected (b1\<lparr>socket := None\<rparr>) of
             (b2, effs2) \<Rightarrow>
               (case rejectAll
                       (case error of
                          Some m \<Rightarrow> m
                        | None \<Rightarrow> ''MCP bridge disconnected before response arrived.'')
                       (pending b2) b2 of
                  (b3, effs3) \<Rightarrow>
                    (if suppressReconnect \<or> no_url b3 then clearReconnectTimer b3
                     else scheduleReconnect b3,
                     effs1 @ effs2 @ effs3))))"

definition connect :: "host \<Rightarrow> bridge \<Rightarrow> bridge \<times> effect list" where
  "connect hst b =
     (if no_url b then updateStatus Disconnected b
      else if socket b \<noteq> None \<or> status b = Connecting then (b, [])
      else
        (case updateStatus Connecting (clearReconnectTimer b) of
           (b1, effs1) \<Rightarrow>
             (case wsConstructError hst (the (url b1)) of
                Some m \<Rightarrow>
                  (case teardown (Some m) False b1 of (b2, effs2) \<Rightarrow> (b2, effs1 @ effs2))
              | None \<Rightarrow>
                  (b1\<lparr>socket := Some (nextSocket b1),
                      readyState := (readyState b1)(nextSocket b1 := WS_CONNECTING),
                      nextSocket := Suc (nextSocket b1)\<rparr>,
                   effs1 @ [SocketCreated (nextSocket b1) (the (url b1))]))))"

definition setUrl :: "host \<Rightarrow> string option \<Rightarrow> bridge \<Rightarrow> bridge \<times> effect list" where
  "setUrl hst next b =
     (let normalized = normalizeUrl next in
      if url b = normalized then
        (case (if normalized \<noteq> None \<and> socket b = None then connect hst b else (b, [])) of
           (b1, effs1) \<Rightarrow>
             (if normalized = None then
                (case teardown (Some ''MCP bridge disabled by configuration.'') True b1 of
                   (b2, effs2) \<Rightarrow> (b2, effs1 @ effs2))
              else (b1, effs1)))
      else
        (let b1 = b\<lparr>url := normalized\<rparr> in
         if no_url b1 then teardown (Some ''MCP bridge disabled by configuration.'') True b1
         else
           (case teardown (Some ''Reconfiguring MCP bridge endpoint.'') True b1 of
              (b2, effs2) \<Rightarrow>
                (case connect hst b2 of (b3, effs3) \<Rightarrow> (b3, effs2 @ effs3)))))"

text \<open>The constructor: \<^verbatim>\<open>if (initialUrl) this.setUrl(initialUrl)\<close>.\<close>

definition construct :: "host \<Rightarrow> string option \<Rightarrow> bridge \<times> effect list" where
  "construct hst initialUrl =
     (case initialUrl of
        None \<Rightarrow> (initial, [])
      | Some u \<Rightarrow> (if u = [] then (initial, []) else setUrl hst (Some u) initial))"

definition reconnectNow :: "host \<Rightarrow> bridge \<Rightarrow> bridge \<times> effect list" where
  "reconnectNow hst b =
     (if no_url b then updateStatus Disconnected b
      else (case socket b of Some h \<Rightarrow> closeSocket h b | None \<Rightarrow> connect hst b))"

definition onStatusChange :: "nat \<Rightarrow> bridge \<Rightarrow> bridge \<times> effect list" where
  "onStatusChange l b =
     (b\<lparr>statusListeners := (if l \<in> set (statusListeners b) then statusListeners b
                             else statusListeners b @ [l])\<rparr>,
      [StatusNotified l (status b)])"

definition onNotification :: "nat \<Rightarrow> bridge \<Rightarrow> bridge" where
  "onNotification l b =
     b\<lparr>notificationListeners := (if l \<in> set (notificationListeners b) then notificationListeners b
                                  else notificationListeners b @ [l])\<rparr>"

text \<open>The functions \<^verbatim>\<open>onStatusChange\<close> and \<^verbatim>\<open>onNotification\<close> return: they remove the listener.\<close>

definition offStatusChange :: "nat \<Rightarrow> bridge \<Rightarrow> bridge" where
  "offStatusChange l b = b\<lparr>statusListeners := removeAll l (statusListeners b)\<rparr>"

definition offNotification :: "nat \<Rightarrow> bridge \<Rightarrow> bridge" where
  "offNotification l b = b\<lparr>notificationListeners := removeAll l (notificationListeners b)\<rparr>"

text \<open>\<^verbatim>\<open>'k' in data\<close> for a parsed object.\<close>

fun has_prop :: "jv \<Rightarrow> string \<Rightarrow> bool" where
  "has_prop (JObj kvs) k = (map_of kvs k \<noteq> None)"
| "has_prop (JArr xs ps) k = (map_of ps k \<noteq> None)"
| "has_prop v k = False"

definition handleMessage :: "host \<Rightarrow> string \<Rightarrow> bridge \<Rightarrow> bridge \<times> effect list" where
  "handleMessage hst raw b =
     (case jsonParse hst raw of
        None \<Rightarrow> (b, [ConsoleWarn ''Ignoring non-JSON message from MCP bridge''])
      | Some data \<Rightarrow>
          (if typeof_string (getp data ''id'') \<or> typeof_number (getp data ''id'') then
             (let key = js_String (numStr hst) (getp data ''id'') in
              case map_of (pending b) key of
                None \<Rightarrow> (b, [])
              | Some p \<Rightarrow>
                  (let b1 = clearTimeout (timeoutId p) (b\<lparr>pending := AList.delete key (pending b)\<rparr>) in
                   if has_prop data ''error'' \<and> truthy (getp data ''error'') then
                     (b1, [Rejected key (js_String (numStr hst)
                             (js_nc (getp (getp data ''error'') ''message'') (JStr ''Unknown MCP error'')))])
                   else if has_prop data ''result'' then (b1, [Resolved key (getp data ''result'')])
                   else (b1, [Resolved key JUndefined])))
           else (b, map (\<lambda>l. NotificationSent l data) (notificationListeners b))))"

text \<open>
  \<^verbatim>\<open>sendRequest\<close> and \<^verbatim>\<open>callTool\<close>.  The result is \<open>Inl\<close> of the message when the call
  throws before a request exists, and \<open>Inr\<close> of the request rid whose promise is returned.
  \<^verbatim>\<open>socket.send\<close> throws on a socket that is still connecting; that cannot happen
  after the check of the ready state, and the browser's error is represented by its name.
\<close>

definition sendRequest :: "string \<Rightarrow> jv \<Rightarrow> bridge \<Rightarrow> (string + string) \<times> bridge \<times> effect list" where
  "sendRequest method params b =
     (case socket b of
        None \<Rightarrow> (Inl ''mcp-disconnected'', b, [])
      | Some h \<Rightarrow>
          (if readyState b h \<noteq> WS_OPEN then (Inl ''mcp-disconnected'', b, [])
           else
             (let rid = show_nat (nextId b);
                  b1 = b\<lparr>nextId := increment (nextId b)\<rparr>;
                  request = JObj [(''jsonrpc'', JStr ''2.0''), (''id'', JStr rid),
                                  (''method'', JStr method), (''params'', params)]
              in case setTimeout (RequestTimeout rid) b1 of
                   (t, b2) \<Rightarrow>
                     (let b3 = b2\<lparr>pending := AList.update rid \<lparr>timeoutId = t\<rparr> (pending b2)\<rparr> in
                      if readyState b3 h = WS_CONNECTING then
                        (Inr rid,
                         clearTimeout t (b3\<lparr>pending := AList.delete rid (pending b3)\<rparr>),
                         [Rejected rid ''InvalidStateError''])
                      else (Inr rid, b3, [SocketSend h request])))))"

definition bridgeCallTool :: "jv \<Rightarrow> jv \<Rightarrow> bridge \<Rightarrow> (string + string) \<times> bridge \<times> effect list" where
  "bridgeCallTool name args b =
     (if \<not> bridgeIsConnected b then (Inl ''mcp-disconnected'', b, [])
      else sendRequest ''tools/call''
             (JObj [(''name'', name), (''arguments'', (if args = JUndefined then JObj [] else args))]) b)"

text \<open>A timer fires: it leaves the table and its callback runs.\<close>

definition timerFired :: "host \<Rightarrow> nat \<Rightarrow> bridge \<Rightarrow> bridge \<times> effect list" where
  "timerFired hst h b =
     (case map_of (timers b) h of
        None \<Rightarrow> (b, [])
      | Some cb \<Rightarrow>
          (let b1 = b\<lparr>timers := AList.delete h (timers b)\<rparr> in
           case cb of
             RequestTimeout rid \<Rightarrow>
               (b1\<lparr>pending := AList.delete rid (pending b1)\<rparr>, [Rejected rid ''mcp-timeout''])
           | Reconnect \<Rightarrow> connect hst (b1\<lparr>reconnectTimer := None\<rparr>)))"

text \<open>
  The events of a socket the class listens to.  The browser delivers \<^verbatim>\<open>open\<close> to a
  connecting socket, \<^verbatim>\<open>message\<close> to an open one and \<^verbatim>\<open>close\<close> to one not yet closed.
\<close>

definition socketOpened :: "nat \<Rightarrow> bridge \<Rightarrow> bridge \<times> effect list" where
  "socketOpened h b =
     (if h < nextSocket b \<and> readyState b h = WS_CONNECTING
      then updateStatus Connected (b\<lparr>readyState := (readyState b)(h := WS_OPEN)\<rparr>)
      else (b, []))"

definition socketMessage :: "host \<Rightarrow> nat \<Rightarrow> string \<Rightarrow> bridge \<Rightarrow> bridge \<times> effect list" where
  "socketMessage hst h raw b =
     (if h < nextSocket b \<and> readyState b h = WS_OPEN then handleMessage hst raw b else (b, []))"

definition socketClosed :: "nat \<Rightarrow> bridge \<Rightarrow> bridge \<times> effect list" where
  "socketClosed h b =
     (if h < nextSocket b \<and> readyState b h \<noteq> WS_CLOSED
      then teardown None False (b\<lparr>readyState := (readyState b)(h := WS_CLOSED)\<rparr>)
      else (b, []))"

text \<open>
  Everything that can happen to a bridge, and a run of such events from a given state.
  A bridge constructed with a URL is the initial bridge after the input \<open>SetUrl\<close>.
\<close>

datatype input =
    SetUrl "string option"
  | CallTool jv jv
  | ReconnectNow
  | OnStatusChange nat
  | OnNotification nat
  | OffStatusChange nat
  | OffNotification nat
  | TimerFired nat
  | SocketOpened nat
  | SocketMessage nat string
  | SocketClosed nat

fun bridge_step :: "host \<Rightarrow> input \<Rightarrow> bridge \<Rightarrow> bridge \<times> effect list" where
  "bridge_step hst (SetUrl next) b = setUrl hst next b"
| "bridge_step hst (CallTool name args) b = (case bridgeCallTool name args b of (r, b', effs) \<Rightarrow> (b', effs))"
| "bridge_step hst ReconnectNow b = reconnectNow hst b"
| "bridge_step hst (OnStatusChange l) b = onStatusChange l b"
| "bridge_step hst (OnNotification l) b = (onNotification l b, [])"
| "bridge_step hst (OffStatusChange l) b = (offStatusChange l b, [])"
| "bridge_step hst (OffNotification l) b = (offNotification l b, [])"
| "bridge_step hst (TimerFired h) b = timerFired hst h b"
| "bridge_step hst (SocketOpened h) b = socketOpened h b"
| "bridge_step hst (SocketMessage h raw) b = socketMessage hst h raw b"
| "bridge_step hst (SocketClosed h) b = socketClosed h b"

fun run :: "host \<Rightarrow> input list \<Rightarrow> bridge \<Rightarrow> bridge \<times> effect list" where
  "run hst [] b = (b, [])"
| "run hst (i # is) b =
     (case bridge_step hst i b of
        (b1, effs1) \<Rightarrow> (case run hst is b1 of (b2, effs2) \<Rightarrow> (b2, effs1 @ effs2)))"

text \<open>
  The calls of a run that were given a request: the ids \<^verbatim>\<open>callTool\<close> returned a promise
  for, in the order of the calls.
\<close>

fun issued :: "host \<Rightarrow> input list \<Rightarrow> bridge \<Rightarrow> string list" where
  "issued hst [] b = []"
| "issued hst (CallTool name args # inputs) b =
     (case bridgeCallTool name args b of
        (Inl e, b', effs) \<Rightarrow> issued hst inputs b'
      | (Inr rid, b', effs) \<Rightarrow> rid # issued hst inputs b')"
| "issued hst (i # inputs) b = issued hst inputs (fst (bridge_step hst i b))"

text \<open>The requests settled by a list of effects.\<close>

fun settled :: "effect list \<Rightarrow> string list" where
  "settled [] = []"
| "settled (Resolved rid v # effs) = rid # settled effs"
| "settled (Rejected rid m # effs) = rid # settled effs"
| "settled (e # effs) = settled effs"

text \<open>
  The earlier version of the class (no reconfiguration): its \<^verbatim>\<open>handleDisconnect\<close> leaves
  the socket alone and always schedules a reconnect.
\<close>

definition scheduleReconnect0 :: "bridge \<Rightarrow> bridge" where
  "scheduleReconnect0 b =
     (if reconnectTimer b \<noteq> None then b
      else (case setTimeout Reconnect b of (h, b') \<Rightarrow> b'\<lparr>reconnectTimer := Some h\<rparr>))"

definition handleDisconnect :: "string option \<Rightarrow> bridge \<Rightarrow> bridge \<times> effect list" where
  "handleDisconnect error b =
     (case updateStatus Disconnected (b\<lparr>socket := None\<rparr>) of
        (b2, effs2) \<Rightarrow>
          (case rejectAll
                  (case error of
                     Some m \<Rightarrow> m
                   | None \<Rightarrow> ''MCP bridge disconnected before response arrived.'')
                  (pending b2) b2 of
             (b3, effs3) \<Rightarrow> (scheduleReconnect0 b3, effs2 @ effs3)))"

section \<open>An invariant of the bridge client\<close>

text \<open>
  The invariant relates the pending map \<open>ps\<close>, the timer table \<open>ts\<close>, the counters
  \<open>nid\<close> (next request id) and \<open>nt\<close> (next timer handle), the reconnect timer \<open>rt\<close>
  and the list \<open>hist\<close> of the requests settled so far: the pending ids are distinct and
  were issued (they print a number below \<open>nid\<close>); a settled request was issued, is not
  pending, and was settled once; every request issued (the ids print the numbers from 1 up
  to \<open>nid\<close>, excluded) is pending or settled; timer handles are distinct and below \<open>nt\<close>; the reconnect
  timer is not a request timer; every armed request timer belongs to the pending entry of
  its request, and every pending entry has its request timer armed.
\<close>

definition tables_inv ::
  "(string \<times> PendingRequest) list \<Rightarrow> (nat \<times> timer_callback) list \<Rightarrow> nat \<Rightarrow> nat \<Rightarrow> nat option
     \<Rightarrow> string list \<Rightarrow> bool" where
  "tables_inv ps ts nid nt rt hist \<longleftrightarrow>
      distinct (map fst ps)
    \<and> (\<forall>rid\<in>fst ` set ps. \<exists>k<nid. rid = show_nat k)
    \<and> (\<forall>rid\<in>set hist. (\<exists>k<nid. rid = show_nat k) \<and> rid \<notin> fst ` set ps)
    \<and> distinct hist
    \<and> (\<forall>k. 0 < k \<longrightarrow> k < nid \<longrightarrow> show_nat k \<in> fst ` set ps \<or> show_nat k \<in> set hist)
    \<and> distinct (map fst ts)
    \<and> (\<forall>h\<in>fst ` set ts. h < nt)
    \<and> (\<forall>h. rt = Some h \<longrightarrow> h < nt \<and> (\<forall>rid. (h, RequestTimeout rid) \<notin> set ts))
    \<and> (\<forall>h rid. (h, RequestTimeout rid) \<in> set ts \<longrightarrow> (rid, \<lparr>timeoutId = h\<rparr>) \<in> set ps)
    \<and> (\<forall>rid p. (rid, p) \<in> set ps \<longrightarrow> (timeoutId p, RequestTimeout rid) \<in> set ts)"

definition bridge_inv :: "bridge \<Rightarrow> string list \<Rightarrow> bool" where
  "bridge_inv b hist = tables_inv (pending b) (timers b) (nextId b) (nextTimer b) (reconnectTimer b) hist"

section \<open>Example inputs\<close>

text \<open>
  A host in which the bridge is down, every local action succeeds and no tab is open; a
  \<^verbatim>\<open>CALL_TOOL\<close> step with empty params and no name; a \<^verbatim>\<open>NAVIGATE\<close> step.
\<close>

definition example_env :: "unit env" where
  "example_env =
     \<lparr> numToString = (\<lambda>n. ''0''), isConnected = (\<lambda>w. False),
       callTool = (\<lambda>n a w. (Inl ''mcp-disconnected'', w)),
       handleAction = (\<lambda>a w. (JObj [(''success'', JBool True)], w)),
       tabsQuery = (\<lambda>q w. (Inr (JArr [] []), w)) \<rparr>"

definition nameless_step :: jv where
  "nameless_step = JObj [(''type'', JStr ''CALL_TOOL''), (''params'', JObj [])]"

definition navigate_step :: jv where
  "navigate_step = JObj [(''type'', JStr ''NAVIGATE''), (''params'', JObj [(''url'', JStr ''https://a.example'')])]"

text \<open>
  A host whose local backend finds no element to click: it answers a \<^verbatim>\<open>CLICK\<close> with
  \<^verbatim>\<open>{success: false, error: "selector-not-found"}\<close>; and a \<^verbatim>\<open>CLICK\<close> step.
\<close>

definition stuck_env :: "unit env" where
  "stuck_env =
     \<lparr> numToString = (\<lambda>n. ''0''), isConnected = (\<lambda>w. False),
       callTool = (\<lambda>n a w. (Inl ''mcp-disconnected'', w)),
       handleAction = (\<lambda>a w. (if getp a ''type'' = JStr ''CLICK''
                                 then JObj [(''success'', JBool False), (''error'', JStr ''selector-not-found'')]
                                 else JObj [(''success'', JBool True)], w)),
       tabsQuery = (\<lambda>q w. (Inr (JArr [] []), w)) \<rparr>"

definition click_step :: jv where
  "click_step = JObj [(''type'', JStr ''CLICK''), (''params'', JObj [(''selector'', JStr ''.btn'')])]"

text \<open>A host in which the bridge is up and answers every call with an empty content list.\<close>

definition connected_env :: "unit env" where
  "connected_env =
     \<lparr> numToString = (\<lambda>n. ''0''), isConnected = (\<lambda>w. True),
       callTool = (\<lambda>n a w. (Inr (JObj [(''content'', JArr [] [])]), w)),
       handleAction = (\<lambda>a w. (JObj [(''success'', JBool True)], w)),
       tabsQuery = (\<lambda>q w. (Inr (JArr [] []), w)) \<rparr>"

text \<open>
  The step \<^verbatim>\<open>{type: "CALL_TOOL", params: {selector: "#a", value: "x"}}\<close>, and a step whose
  top-level \<^verbatim>\<open>selector\<close> differs from the one in its nested argument bag.
\<close>

definition fill_params :: jv where
  "fill_params = JObj [(''selector'', JStr ''#a''), (''value'', JStr ''x'')]"

definition inferred_fill_step :: jv where
  "inferred_fill_step = JObj [(''type'', JStr ''CALL_TOOL''), (''params'', fill_params)]"

definition shadowed_selector_step :: jv where
  "shadowed_selector_step =
     JObj [(''type'', JStr ''CALL_TOOL''), (''selector'', JStr ''top''),
           (''params'', JObj [(''tool'', JStr ''some_tool''),
                              (''arguments'', JObj [(''selector'', JStr ''nested'')])])]"

text \<open>
  A host for the bridge whose parser knows two frames, the responses to the requests with
  the ids 1 and \<open>2^53\<close>; and a connected bridge with one status listener and one call in
  flight.
\<close>

definition example_host :: host where
  "example_host =
     \<lparr> jsonParse = (\<lambda>raw. if raw = ''<response 1>''
                            then Some (JObj [(''id'', JStr ''1''), (''result'', JNull)])
                          else if raw = ''<response 9007199254740992>''
                            then Some (JObj [(''id'', JStr ''9007199254740992''), (''result'', JNull)])
                          else None),
       wsConstructError = (\<lambda>u. None),
       numStr = (\<lambda>n. ''0'') \<rparr>"

definition busy_bridge :: bridge where
  "busy_bridge =
     \<lparr> url = Some ''ws://bridge.example'', status = Connected, socket = Some 0, reconnectTimer = None,
       nextId = 2, pending = [(''1'', \<lparr>timeoutId = 0\<rparr>)], statusListeners = [7],
       notificationListeners = [], timers = [(0, RequestTimeout ''1'')], nextTimer = 1,
       readyState = (\<lambda>h. WS_CLOSED)(0 := WS_OPEN), nextSocket = 1 \<rparr>"

text \<open>The bridge \<open>busy_bridge\<close> after the timer of its request has fired.\<close>

definition timed_out_bridge :: bridge where
  "timed_out_bridge =
     \<lparr> url = Some ''ws://bridge.example'', status = Connected, socket = Some 0, reconnectTimer = None,
       nextId = 2, pending = [], statusListeners = [7],
       notificationListeners = [], timers = [], nextTimer = 1,
       readyState = (\<lambda>h. WS_CLOSED)(0 := WS_OPEN), nextSocket = 1 \<rparr>"

text \<open>
  The same bridge, connected and with no call in flight, after \<open>n\<close> calls that have all
  timed out; and the one of them whose request counter has reached \<open>2^53\<close>.
\<close>

definition idle_bridge :: "nat \<Rightarrow> bridge" where
  "idle_bridge n =
     \<lparr> url = Some ''ws://bridge.example'', status = Connected, socket = Some 0, reconnectTimer = None,
       nextId = Suc n, pending = [], statusListeners = [7],
       notificationListeners = [], timers = [], nextTimer = n,
       readyState = (\<lambda>h. WS_CLOSED)(0 := WS_OPEN), nextSocket = 1 \<rparr>"

definition saturated_bridge :: bridge where
  "saturated_bridge = idle_bridge 9007199254740991"

section \<open>Properties of the plan executor\<close>

lemma getp_not_nullish: "getp v k \<noteq> JUndefined \<Longrightarrow> \<not> nullish v"
  by (cases v) (auto simp: nullish_def)

lemma callToolStep_missing_name:
  "\<not> truthy (toolNameOf step mp) \<Longrightarrow> inferTool mp = None \<Longrightarrow>
   callToolStep env tabId ctx i step mp w = (Inl ''call-tool-missing-name'', w, [])"
  by (simp add: callToolStep_def resolveCall_def resolveToolName_def)

lemma runSteps_length:
  "runSteps env t c i plan w = (rs, w', evs) \<Longrightarrow> length rs \<le> length plan"
  by (induction plan arbitrary: i w rs w' evs) (auto split: prod.splits sum.splits)

lemma runSteps_prefix_success:
  "runSteps env t c i plan w = (rs, w', evs) \<Longrightarrow> Suc k < length rs \<Longrightarrow> success (rs ! k)"
proof (induction plan arbitrary: i w rs w' evs k)
  case Nil
  then show ?case by simp
next
  case (Cons step rest)
  then show ?case
    by (cases k) (auto split: prod.splits sum.splits)
qed

lemma runSteps_all_success:
  "runSteps env t c i plan w = (rs, w', evs) \<Longrightarrow> \<forall>r\<in>set rs. success r \<Longrightarrow> length rs = length plan"
  by (induction plan arbitrary: i w rs w' evs) (auto split: prod.splits sum.splits)

lemma runSteps_short:
  "runSteps env t c i plan w = (rs, w', evs) \<Longrightarrow> length rs < length plan \<Longrightarrow>
   rs \<noteq> [] \<and> \<not> success (last rs)"
  by (induction plan arbitrary: i w rs w' evs) (auto split: prod.splits sum.splits)

lemma runSteps_take:
  "runSteps env t c i plan w = (rs, w', evs) \<Longrightarrow>
   runSteps env t c i (take (length rs) plan) w = (rs, w', evs)"
  by (induction plan arbitrary: i w rs w' evs) (auto split: prod.splits sum.splits)

lemma started_append [simp]: "started (xs @ ys) = started xs @ started ys"
  by (induction xs rule: started.induct) simp_all

lemma started_local_action [simp]: "started (snd (snd (local_action env a w))) = []"
  by (simp add: local_action_def case_prod_beta)

lemma started_bridge_call [simp]: "started (snd (snd (bridge_call env n a w))) = []"
  by (simp add: bridge_call_def case_prod_beta)

lemma started_navigate [simp]: "started (snd (snd (navigate env u t w))) = []"
  by (simp add: navigate_def)

lemma started_forward [simp]: "started (snd (snd (forward env n a w))) = []"
  by (simp add: forward_def)

lemma started_selectPage [simp]: "started (snd (snd (selectPage env ex t w))) = []"
  by (simp add: selectPage_def Let_def)

lemma started_newPage [simp]: "started (snd (snd (newPage env ex t a w))) = []"
  by (simp add: newPage_def Let_def)

lemma started_listPages [simp]: "started (snd (snd (listPages env c w))) = []"
  by (simp add: listPages_def Let_def case_prod_beta split: sum.splits)

lemma started_if:
  "started (snd (snd a)) = [] \<Longrightarrow> started (snd (snd b)) = [] \<Longrightarrow>
   started (snd (snd (if c then a else b))) = []"
  by simp

lemma started_dispatch [simp]: "started (snd (snd (dispatch env t c step mp n a w))) = []"
  unfolding dispatch_def Let_def
  by (intro started_if started_newPage started_navigate started_listPages started_selectPage
      started_forward started_local_action) simp_all

lemma started_resolveCall [simp]: "started (snd (resolveCall ns step mp)) = []"
  by (auto simp: resolveCall_def resolveToolName_def Let_def split: sum.splits option.splits)

lemma started_callToolStep [simp]: "started (snd (snd (callToolStep env t c i step mp w))) = []"
proof -
  obtain r evs0 where rc: "resolveCall (numToString env) step mp = (r, evs0)"
    by (cases "resolveCall (numToString env) step mp")
  have e0: "started evs0 = []" using started_resolveCall[of "numToString env" step mp] rc by simp
  show ?thesis
  proof (cases r)
    case (Inl e)
    then show ?thesis using rc e0 by (simp add: callToolStep_def)
  next
    case (Inr na)
    obtain n a where na: "na = (n, a)" by (cases na)
    obtain d w' evs where dp: "dispatch env t c step mp n a w = (d, w', evs)"
      by (cases "dispatch env t c step mp n a w")
    have e1: "started evs = []" using started_dispatch[of env t c step mp n a w] dp by simp
    show ?thesis using rc Inr na dp e0 e1 by (cases d) (simp_all add: callToolStep_def)
  qed
qed

lemma started_execStep [simp]: "started (snd (snd (execStep env t c i step w))) = []"
  unfolding execStep_def Let_def
  by (intro started_if started_callToolStep started_local_action) simp

lemma runSteps_started:
  "runSteps env t c i plan w = (rs, w', evs) \<Longrightarrow> started evs = [i..<i + length rs]"
proof (induction plan arbitrary: i w rs w' evs)
  case Nil
  then show ?case by simp
next
  case (Cons step rest)
  obtain r w1 evs1 where ex: "execStep env t c i step w = (r, w1, evs1)"
    by (cases "execStep env t c i step w")
  have s1: "started evs1 = []" using started_execStep[of env t c i step w] ex by simp
  show ?case
  proof (cases r)
    case (Inl e)
    then show ?thesis using Cons.prems ex s1 by auto
  next
    case (Inr v)
    obtain rs2 w2 evs2 where rr: "runSteps env t c (Suc i) rest w1 = (rs2, w2, evs2)"
      by (cases "runSteps env t c (Suc i) rest w1")
    have "started evs2 = [Suc i..<Suc i + length rs2]" by (rule Cons.IH[OF rr])
    moreover have "[i..<i + Suc (length rs2)] = i # [Suc i..<Suc i + length rs2]"
      by (simp add: upt_conv_Cons del: upt_Suc)
    ultimately show ?thesis using Cons.prems ex Inr rr s1 by (auto simp del: upt_Suc)
  qed
qed

lemma executePlan_nameless:
  "executePlan example_env [nameless_step] JUndefined () =
     (Inr [Failure ''call-tool-missing-name''], (),
      [LLM_PROGRESS Running 0 JUndefined, LLM_PROGRESS Failed 0 (JStr ''call-tool-missing-name'')])"
  by (simp add: executePlan_def getActiveTabContext_def example_env_def nameless_step_def
      execStep_def mergedParamsOf_def nullish_def callToolStep_def resolveCall_def resolveToolName_def
      toolNameOf_def js_or_def inferTool_def)

lemma executePlan_navigate_nameless_navigate:
  "fst (executePlan example_env [navigate_step, nameless_step, navigate_step] JUndefined ()) =
     Inr [Success (JObj [(''success'', JBool True)]), Failure ''call-tool-missing-name'']"
  by (simp add: executePlan_def getActiveTabContext_def example_env_def nameless_step_def
      navigate_step_def execStep_def mergedParamsOf_def nullish_def callToolStep_def
      resolveCall_def resolveToolName_def toolNameOf_def js_or_def inferTool_def local_action_def spread_def)

lemma executePlan_navigate_navigate:
  "fst (executePlan example_env [navigate_step, navigate_step] JUndefined ()) =
     Inr [Success (JObj [(''success'', JBool True)]), Success (JObj [(''success'', JBool True)])]"
  by (simp add: executePlan_def getActiveTabContext_def example_env_def
      navigate_step_def execStep_def mergedParamsOf_def nullish_def local_action_def spread_def)

lemma execStep_call_tool_checked:
  assumes "execStep env t c i step w = (Inr r, w', evs)"
      and "getp step ''type'' = JStr ''CALL_TOOL''"
  shows "\<not> reports_failure r"
proof -
  have cs: "callToolStep env t c i step (mergedParamsOf step) w = (Inr r, w', evs)"
    using assms by (simp add: execStep_def Let_def split: if_splits)
  obtain rc evs0 where rc: "resolveCall (numToString env) step (mergedParamsOf step) = (rc, evs0)"
    by (cases "resolveCall (numToString env) step (mergedParamsOf step)")
  show ?thesis
  proof (cases rc)
    case (Inl e)
    then show ?thesis using cs rc by (simp add: callToolStep_def)
  next
    case (Inr na)
    obtain n a where na: "na = (n, a)" by (cases na)
    obtain d w1 evs1 where dp:
      "dispatch env t c step (mergedParamsOf step) n a w = (d, w1, evs1)"
      by (cases "dispatch env t c step (mergedParamsOf step) n a w")
    show ?thesis
    proof (cases d)
      case (Inl e)
      then show ?thesis using cs rc Inr na dp by (simp add: callToolStep_def)
    next
      case (Inr actionResult)
      then have "checkResult (numToString env) actionResult = Inr r"
        using cs rc \<open>rc = Inr na\<close> na dp by (simp add: callToolStep_def)
      then show ?thesis
        by (auto simp: checkResult_def reports_failure_def split: if_splits)
    qed
  qed
qed

lemma runSteps_checked:
  "runSteps env t c i plan w = (rs, w', evs) \<Longrightarrow>
   list_all (\<lambda>(step, r). \<not> unchecked_failure step r) (zip plan rs) \<Longrightarrow>
   r \<in> set rs \<Longrightarrow> failed r = (\<not> success r)"
proof (induction plan arbitrary: i w rs w' evs)
  case Nil
  then show ?case by simp
next
  case (Cons step rest)
  obtain x w1 evs1 where ex: "execStep env t c i step w = (x, w1, evs1)"
    by (cases "execStep env t c i step w")
  show ?case
  proof (cases x)
    case (Inl e)
    then show ?thesis using Cons.prems ex by auto
  next
    case (Inr v)
    obtain rs2 w2 evs2 where rr: "runSteps env t c (Suc i) rest w1 = (rs2, w2, evs2)"
      by (cases "runSteps env t c (Suc i) rest w1")
    have rs: "rs = Success v # rs2" using Cons.prems(1) ex Inr rr by simp
    have hd: "\<not> reports_failure v"
    proof (cases "getp step ''type'' = JStr ''CALL_TOOL''")
      case True
      then show ?thesis
        using execStep_call_tool_checked[of env t c i step w v w1 evs1] ex Inr by simp
    next
      case False
      then show ?thesis using Cons.prems(2) rs by (simp add: unchecked_failure_def)
    qed
    have tl: "list_all (\<lambda>(step, r). \<not> unchecked_failure step r) (zip rest rs2)"
      using Cons.prems(2) rs by simp
    show ?thesis
      using Cons.prems(3) rs hd Cons.IH[OF rr tl] by auto
  qed
qed

text \<open>
  A primitive step whose backend value reports a failure is recorded as a success, and the
  loop goes on to the next step: the value of \<^verbatim>\<open>mcp.handleAction\<close> in the last \<^verbatim>\<open>else\<close> of
  the loop body is pushed as it is, without the test the \<^verbatim>\<open>CALL_TOOL\<close> branch makes.
\<close>

lemma executePlan_unchecked_click:
  "fst (executePlan stuck_env [navigate_step, click_step, navigate_step] JUndefined ()) =
     Inr [Success (JObj [(''success'', JBool True)]),
          Success (JObj [(''success'', JBool False), (''error'', JStr ''selector-not-found'')]),
          Success (JObj [(''success'', JBool True)])]
   \<and> started (snd (snd (executePlan stuck_env [navigate_step, click_step, navigate_step] JUndefined ())))
       = [0, 1, 2]
   \<and> unchecked_failure click_step
        (Success (JObj [(''success'', JBool False), (''error'', JStr ''selector-not-found'')]))"
  by (simp add: executePlan_def getActiveTabContext_def stuck_env_def click_step_def
      navigate_step_def execStep_def mergedParamsOf_def nullish_def local_action_def spread_def
      unchecked_failure_def reports_failure_def)

text \<open>
  Claim C1, as amended.  When \<^verbatim>\<open>executePlan\<close> returns a result sequence: its length is at
  most the plan length; every result but the last is recorded as a success; if all results
  are recorded as successes the length equals the plan length; if the length is strictly
  less than the plan length then the last result is recorded as a failure; the whole outcome
  (results, world, events) is that of the plan cut after the last attempted step, and the
  steps started are exactly those with a result, in order.  Moreover, in a run with no
  unchecked_failure result (no step other than a \<^verbatim>\<open>CALL_TOOL\<close> got a backend value that reports a
  failure), the failed steps are exactly those recorded as failures, so that: no step before
  the last attempted one has failed, the run halts at the first failing step with no later
  step attempted, a run without a failed step has a result for every step, and a run with
  fewer results than steps ends in a failed step.  A failing step is itself recorded, so a
  failure of the last step gives a sequence of full length.
\<close>

theorem C1_result_sequence:
  assumes "executePlan env plan tabId w = (Inr rs, w', evs)"
  shows "length rs \<le> length plan
       \<and> (\<forall>k. Suc k < length rs \<longrightarrow> success (rs ! k))
       \<and> ((\<forall>r\<in>set rs. success r) \<longrightarrow> length rs = length plan)
       \<and> (length rs < length plan \<longrightarrow> rs \<noteq> [] \<and> \<not> success (last rs))
       \<and> executePlan env (take (length rs) plan) tabId w = (Inr rs, w', evs)
       \<and> started evs = [0..<length rs]
       \<and> (list_all (\<lambda>(step, r). \<not> unchecked_failure step r) (zip plan rs) \<longrightarrow>
            (\<forall>r\<in>set rs. failed r = (\<not> success r))
          \<and> (\<forall>k. Suc k < length rs \<longrightarrow> \<not> failed (rs ! k))
          \<and> (\<forall>k<length rs. failed (rs ! k) \<longrightarrow> Suc k = length rs)
          \<and> ((\<forall>r\<in>set rs. \<not> failed r) \<longrightarrow> length rs = length plan)
          \<and> (length rs < length plan \<longrightarrow> rs \<noteq> [] \<and> failed (last rs)))"
proof -
  from assms obtain ctx w0 where
    ctx: "getActiveTabContext env w = (Inr ctx, w0)" and
    run: "runSteps env tabId ctx 0 plan w0 = (rs, w', evs)"
    by (auto simp: executePlan_def split: prod.splits sum.splits)
  have cut: "executePlan env (take (length rs) plan) tabId w = (Inr rs, w', evs)"
    using ctx runSteps_take[OF run] by (simp add: executePlan_def)
  have pre: "\<forall>k. Suc k < length rs \<longrightarrow> success (rs ! k)"
    using runSteps_prefix_success[OF run] by blast
  have full: "(\<forall>r\<in>set rs. success r) \<longrightarrow> length rs = length plan"
    using runSteps_all_success[OF run] by blast
  have short: "length rs < length plan \<longrightarrow> rs \<noteq> [] \<and> \<not> success (last rs)"
    using runSteps_short[OF run] by blast
  have checked: "(\<forall>r\<in>set rs. failed r = (\<not> success r))
          \<and> (\<forall>k. Suc k < length rs \<longrightarrow> \<not> failed (rs ! k))
          \<and> (\<forall>k<length rs. failed (rs ! k) \<longrightarrow> Suc k = length rs)
          \<and> ((\<forall>r\<in>set rs. \<not> failed r) \<longrightarrow> length rs = length plan)
          \<and> (length rs < length plan \<longrightarrow> rs \<noteq> [] \<and> failed (last rs))"
    if h: "list_all (\<lambda>(step, r). \<not> unchecked_failure step r) (zip plan rs)"
  proof -
    have eq: "\<forall>r\<in>set rs. failed r = (\<not> success r)"
      using runSteps_checked[OF run h] by blast
    have a: "\<forall>k. Suc k < length rs \<longrightarrow> \<not> failed (rs ! k)"
      using eq pre by simp
    have b: "\<forall>k<length rs. failed (rs ! k) \<longrightarrow> Suc k = length rs"
    proof (intro allI impI)
      fix k assume k: "k < length rs" and f: "failed (rs ! k)"
      show "Suc k = length rs"
      proof (rule ccontr)
        assume "Suc k \<noteq> length rs"
        then have "Suc k < length rs" using k by simp
        then show False using a f by blast
      qed
    qed
    have c: "(\<forall>r\<in>set rs. \<not> failed r) \<longrightarrow> length rs = length plan"
      using eq full by simp
    have d: "length rs < length plan \<longrightarrow> rs \<noteq> [] \<and> failed (last rs)"
      using eq short by auto
    show ?thesis using eq a b c d by blast
  qed
  have len: "length rs \<le> length plan"
    by (rule runSteps_length[OF run])
  have st: "started evs = [0..<length rs]"
    using runSteps_started[OF run] by simp
  have chk: "list_all (\<lambda>(step, r). \<not> unchecked_failure step r) (zip plan rs) \<longrightarrow>
            (\<forall>r\<in>set rs. failed r = (\<not> success r))
          \<and> (\<forall>k. Suc k < length rs \<longrightarrow> \<not> failed (rs ! k))
          \<and> (\<forall>k<length rs. failed (rs ! k) \<longrightarrow> Suc k = length rs)
          \<and> ((\<forall>r\<in>set rs. \<not> failed r) \<longrightarrow> length rs = length plan)
          \<and> (length rs < length plan \<longrightarrow> rs \<noteq> [] \<and> failed (last rs))"
    using checked by blast
  show ?thesis
    using len pre full short cut st chk by (intro conjI) assumption+
qed

theorem C1_result_sequence_witness:
  "(fst (executePlan example_env [navigate_step, nameless_step, navigate_step] JUndefined ()) =
      Inr [Success (JObj [(''success'', JBool True)]), Failure ''call-tool-missing-name'']
    \<and> list_all (\<lambda>(step, r). \<not> unchecked_failure step r)
        (zip [navigate_step, nameless_step, navigate_step]
             [Success (JObj [(''success'', JBool True)]), Failure ''call-tool-missing-name''])
    \<and> \<not> failed (Success (JObj [(''success'', JBool True)]))
    \<and> failed (Failure ''call-tool-missing-name'')
    \<and> started (snd (snd (executePlan example_env [navigate_step, nameless_step, navigate_step]
                            JUndefined ()))) = [0, 1]
    \<and> executePlan example_env (take 2 [navigate_step, nameless_step, navigate_step]) JUndefined () =
        executePlan example_env [navigate_step, nameless_step, navigate_step] JUndefined ())
   \<and> (fst (executePlan example_env [navigate_step, navigate_step] JUndefined ()) =
        Inr [Success (JObj [(''success'', JBool True)]), Success (JObj [(''success'', JBool True)])]
      \<and> list_all (\<lambda>(step, r). \<not> unchecked_failure step r)
          (zip [navigate_step, navigate_step]
               [Success (JObj [(''success'', JBool True)]), Success (JObj [(''success'', JBool True)])])
      \<and> started (snd (snd (executePlan example_env [navigate_step, navigate_step] JUndefined ())))
          = [0, 1])"
proof -
  obtain w1 e1 where a:
    "executePlan example_env [navigate_step, nameless_step, navigate_step] JUndefined () =
       (Inr [Success (JObj [(''success'', JBool True)]), Failure ''call-tool-missing-name''], w1, e1)"
    using executePlan_navigate_nameless_navigate by (metis fst_conv surj_pair)
  obtain w2 e2 where b:
    "executePlan example_env [navigate_step, navigate_step] JUndefined () =
       (Inr [Success (JObj [(''success'', JBool True)]), Success (JObj [(''success'', JBool True)])], w2, e2)"
    using executePlan_navigate_navigate by (metis fst_conv surj_pair)
  have ha: "list_all (\<lambda>(step, r). \<not> unchecked_failure step r)
        (zip [navigate_step, nameless_step, navigate_step]
             [Success (JObj [(''success'', JBool True)]), Failure ''call-tool-missing-name''])"
    by (simp add: unchecked_failure_def reports_failure_def)
  have hb: "list_all (\<lambda>(step, r). \<not> unchecked_failure step r)
          (zip [navigate_step, navigate_step]
               [Success (JObj [(''success'', JBool True)]), Success (JObj [(''success'', JBool True)])])"
    by (simp add: unchecked_failure_def reports_failure_def)
  have fa: "\<not> failed (Success (JObj [(''success'', JBool True)])) \<and> failed (Failure ''call-tool-missing-name'')"
    by (simp add: reports_failure_def)
  have ca: "started e1 = [0, 1]
      \<and> executePlan example_env (take 2 [navigate_step, nameless_step, navigate_step]) JUndefined () =
          (Inr [Success (JObj [(''success'', JBool True)]), Failure ''call-tool-missing-name''], w1, e1)"
    using C1_result_sequence[OF a] by simp
  have cb: "started e2 = [0, 1]"
    using C1_result_sequence[OF b] by simp
  show ?thesis
    using a b ha hb fa ca cb by simp
qed

text \<open>
  Claim C1 as stated fails: the plan of one nameless \<^verbatim>\<open>CALL_TOOL\<close> step has a failed step,
  yet the result sequence is as long as the plan, not strictly shorter.
\<close>

theorem C1_counterexample:
  "fst (executePlan example_env [nameless_step] JUndefined ()) = Inr [Failure ''call-tool-missing-name'']
   \<and> \<not> success (Failure ''call-tool-missing-name'')
   \<and> \<not> length [Failure ''call-tool-missing-name''] < length [nameless_step]"
  by (simp add: executePlan_nameless)

lemma lower_new_page: "toLowerCase ''new_page'' = ''new_page''"
  by (simp add: toLowerCase.simps lower_char_def)

lemma dispatch_new_page:
  assumes "toLowerCase (js_String (numToString env) (js_or toolName (JStr []))) = ''new_page''"
  shows "dispatch env tabId ctx step mp toolName toolArgs w =
           newPage env (extract_arg toolArgs step mp) tabId toolArgs w"
  using assms by (simp add: dispatch_def Let_def startsWith_def)

text \<open>
  Claim C4.  A resolved call whose lower-cased tool name is \<^verbatim>\<open>new_page\<close> and for which no
  (truthy) \<^verbatim>\<open>url\<close> is found in the arguments, at the step's top level or in params, is
  refused with \<^verbatim>\<open>blocked-new-page-without-url\<close> after a warning: whatever the bridge's
  state (\<open>env\<close> and \<open>w\<close> are arbitrary) and whatever the \<^verbatim>\<open>forceNew\<close> flags; neither backend
  is called.
\<close>

theorem C4_new_page_without_url:
  assumes "toLowerCase (js_String (numToString env) (js_or toolName (JStr []))) = ''new_page''"
    and "\<not> truthy (extract_arg toolArgs step mp ''url'')"
  shows "dispatch env tabId ctx step mp toolName toolArgs w =
           (Inl ''blocked-new-page-without-url'', w,
            [LLM_WARNING ''Blocked request to open a new page without URL.'' JUndefined])"
  using assms(2) by (simp add: dispatch_new_page[OF assms(1)] newPage_def Let_def)

theorem C4_new_page_without_url_witness:
  "dispatch connected_env JUndefined JNull
      (JObj [(''type'', JStr ''CALL_TOOL'')]) (JObj []) (JStr ''new_page'')
      (JObj [(''forceNew'', JBool True)]) () =
           (Inl ''blocked-new-page-without-url'', (),
            [LLM_WARNING ''Blocked request to open a new page without URL.'' JUndefined])"
proof -
  have a: "toLowerCase (js_String (numToString connected_env) (js_or (JStr ''new_page'') (JStr [])))
             = ''new_page''"
    by (simp add: js_or_def lower_new_page)
  have b: "\<not> truthy (extract_arg (JObj [(''forceNew'', JBool True)])
                       (JObj [(''type'', JStr ''CALL_TOOL'')]) (JObj []) ''url'')"
    by (simp add: extract_arg_def js_nc_def nullish_def)
  show ?thesis using C4_new_page_without_url[OF a b] by simp
qed

text \<open>
  Claim C3.  A resolved \<^verbatim>\<open>new_page\<close> call for which a (truthy) \<^verbatim>\<open>url\<close> is found: if
  \<^verbatim>\<open>forceNew\<close> or \<^verbatim>\<open>force_new\<close> is truthy and the bridge is not connected, it fails with
  \<^verbatim>\<open>blocked-new-page-force-new-bridge-off\<close> and no backend is called; if forced and the
  bridge is connected, the one action is the bridge call \<^verbatim>\<open>new_page\<close> with the resolved
  arguments, whose outcome is the outcome; if not forced, the one action is the local
  \<^verbatim>\<open>NAVIGATE\<close> to that url on the run's tab (the active tab when \<^verbatim>\<open>tabId\<close> is undefined), and
  the bridge is not called.
\<close>

theorem C3_new_page_with_url:
  assumes "toLowerCase (js_String (numToString env) (js_or toolName (JStr []))) = ''new_page''"
    and "truthy (extract_arg toolArgs step mp ''url'')"
  shows "dispatch env tabId ctx step mp toolName toolArgs w =
     (if truthy (extract_arg toolArgs step mp ''forceNew'')
         \<or> truthy (extract_arg toolArgs step mp ''force_new'')
      then (if isConnected env w
            then (fst (callTool env (JStr ''new_page'') toolArgs w),
                  snd (callTool env (JStr ''new_page'') toolArgs w),
                  [BridgeCall (JStr ''new_page'') toolArgs])
            else (Inl ''blocked-new-page-force-new-bridge-off'', w,
                  [LLM_WARNING ''Attempted force-new but MCP bridge not connected; blocked.'' JUndefined]))
      else (Inr (fst (handleAction env (JObj [(''type'', JStr ''NAVIGATE''),
                         (''url'', extract_arg toolArgs step mp ''url''), (''tabId'', tabId)]) w)),
            snd (handleAction env (JObj [(''type'', JStr ''NAVIGATE''),
                         (''url'', extract_arg toolArgs step mp ''url''), (''tabId'', tabId)]) w),
            [LocalAction (JObj [(''type'', JStr ''NAVIGATE''),
                         (''url'', extract_arg toolArgs step mp ''url''), (''tabId'', tabId)])]))"
  using assms(2)
  by (simp add: dispatch_new_page[OF assms(1)] newPage_def Let_def bridge_call_def navigate_def
      local_action_def split: prod.splits)

theorem C3_new_page_with_url_witness:
  "dispatch example_env JUndefined JNull (JObj [(''type'', JStr ''CALL_TOOL'')]) (JObj [])
      (JStr ''NEW_PAGE'') (JObj [(''url'', JStr ''https://a.example''), (''forceNew'', JBool True)]) () =
     (Inl ''blocked-new-page-force-new-bridge-off'', (),
      [LLM_WARNING ''Attempted force-new but MCP bridge not connected; blocked.'' JUndefined])
   \<and> dispatch connected_env JUndefined JNull (JObj [(''type'', JStr ''CALL_TOOL'')]) (JObj [])
      (JStr ''NEW_PAGE'') (JObj [(''url'', JStr ''https://a.example''), (''forceNew'', JBool True)]) () =
     (Inr (JObj [(''content'', JArr [] [])]), (),
      [BridgeCall (JStr ''new_page'')
         (JObj [(''url'', JStr ''https://a.example''), (''forceNew'', JBool True)])])
   \<and> dispatch connected_env (JNum 7) JNull (JObj [(''type'', JStr ''CALL_TOOL'')]) (JObj [])
      (JStr ''NEW_PAGE'') (JObj [(''url'', JStr ''https://a.example'')]) () =
     (Inr (JObj [(''success'', JBool True)]), (),
      [LocalAction (JObj [(''type'', JStr ''NAVIGATE''), (''url'', JStr ''https://a.example''),
                          (''tabId'', JNum 7)])])"
proof -
  have l: "toLowerCase ''NEW_PAGE'' = ''new_page''"
    by (simp add: toLowerCase.simps lower_char_def)
  have a: "toLowerCase (js_String (numToString example_env) (js_or (JStr ''NEW_PAGE'') (JStr [])))
             = ''new_page''"
       "toLowerCase (js_String (numToString connected_env) (js_or (JStr ''NEW_PAGE'') (JStr [])))
             = ''new_page''"
    by (simp_all add: js_or_def l)
  have u: "truthy (extract_arg (JObj [(''url'', JStr ''https://a.example''), (''forceNew'', JBool True)])
                     (JObj [(''type'', JStr ''CALL_TOOL'')]) (JObj []) ''url'')"
          "truthy (extract_arg (JObj [(''url'', JStr ''https://a.example'')])
                     (JObj [(''type'', JStr ''CALL_TOOL'')]) (JObj []) ''url'')"
    by (simp_all add: extract_arg_def)
  show ?thesis
    using C3_new_page_with_url[OF a(1) u(1), of JUndefined JNull "()"]
      C3_new_page_with_url[OF a(2) u(1), of JUndefined JNull "()"]
      C3_new_page_with_url[OF a(2) u(2), of "JNum 7" JNull "()"]
    by (simp add: extract_arg_def js_nc_def nullish_def example_env_def connected_env_def)
qed

lemma resolve_inferred_fill_step:
  "resolveCall ns inferred_fill_step (mergedParamsOf inferred_fill_step) =
     (Inr (JStr ''extension_fill_selector'', JObj [(''selector'', JStr ''#a''), (''value'', JStr ''x'')]),
      [LLM_WARNING missing_name_message (JStr ''extension_fill_selector'')])"
  by (simp add: inferred_fill_step_def fill_params_def mergedParamsOf_def resolveCall_def
      resolveToolName_def toolNameOf_def js_or_def inferTool_def normalizeArgs_def)

lemma normalizeArgs_inferred:
  "normalizeArgs ns step mp (Some (JObj (kv # kvs))) =
     Inr (if truthy (getp mp ''url'')
          then JObj (AList.update ''url'' (getp mp ''url'')
                 (if truthy (getp step ''url'') then AList.update ''url'' (getp step ''url'') (kv # kvs)
                  else kv # kvs))
          else if truthy (getp step ''url'') then JObj (AList.update ''url'' (getp step ''url'') (kv # kvs))
          else JObj (kv # kvs))"
  by (simp add: normalizeArgs_def assign_prop_def)

text \<open>
  Claim C5, at a failing input.  The step has \<^verbatim>\<open>selector: "top"\<close> at its top level and a
  nested bag \<^verbatim>\<open>arguments: {selector: "nested"}\<close>; the resolved arguments keep
  \<^verbatim>\<open>selector: "nested"\<close>: for a non-empty bag only \<^verbatim>\<open>url\<close> is overridden.
\<close>

theorem C5_selector_not_overridden:
  "resolveCall ns shadowed_selector_step (mergedParamsOf shadowed_selector_step) =
     (Inr (JStr ''some_tool'', JObj [(''selector'', JStr ''nested'')]), [])
   \<and> getp shadowed_selector_step ''selector'' = JStr ''top''"
  by (simp add: shadowed_selector_step_def mergedParamsOf_def resolveCall_def
      resolveToolName_def toolNameOf_def js_or_def normalizeArgs_def argsBagOf_def)

text \<open>
  Claim C6.  For a \<^verbatim>\<open>CALL_TOOL\<close> step with no truthy tool name in any encoding the resolver
  reads, the resolved call is inferred from params in this order: a truthy \<^verbatim>\<open>selector\<close>
  with a \<^verbatim>\<open>value\<close> gives the fill tool with that selector and value; a truthy \<^verbatim>\<open>selector\<close>
  without \<^verbatim>\<open>value\<close> gives the click tool; else a truthy \<^verbatim>\<open>url\<close> gives the navigate tool;
  else a truthy \<^verbatim>\<open>code\<close> gives the evaluate-script tool; else a non-empty string \<^verbatim>\<open>text\<close>
  gives the fill tool on the given selector, by default \<^verbatim>\<open>input\<close>.  Each inference sends
  the warning naming the inferred tool.  For params \<^verbatim>\<open>{selector: "#a", value: "x"}\<close> the
  resolved call is the fill tool with exactly these two arguments.
\<close>

theorem C6_inference:
  assumes "\<not> truthy (getp mp ''tool'')" and "\<not> truthy (getp mp ''toolName'')"
    and "\<not> truthy (getp mp ''tool_name'')" and "\<not> truthy (getp mp ''name'')"
    and "\<not> truthy (getp step ''tool'')" and "\<not> truthy (getp step ''toolName'')"
    and "\<not> truthy (getp step ''tool_name'')"
  shows
    "(truthy (getp mp ''selector'') \<and> getp mp ''value'' \<noteq> JUndefined \<longrightarrow>
        (\<exists>args. resolveCall ns step mp =
                  (Inr (JStr ''extension_fill_selector'', args),
                   [LLM_WARNING missing_name_message (JStr ''extension_fill_selector'')])
              \<and> getp args ''selector'' = getp mp ''selector''
              \<and> getp args ''value'' = getp mp ''value''))
   \<and> (truthy (getp mp ''selector'') \<and> getp mp ''value'' = JUndefined \<longrightarrow>
        (\<exists>args. resolveCall ns step mp =
                  (Inr (JStr ''extension_click_selector'', args),
                   [LLM_WARNING missing_name_message (JStr ''extension_click_selector'')])
              \<and> getp args ''selector'' = getp mp ''selector''))
   \<and> (\<not> truthy (getp mp ''selector'') \<and> truthy (getp mp ''url'') \<longrightarrow>
        (\<exists>args. resolveCall ns step mp =
                  (Inr (JStr ''navigate_page'', args),
                   [LLM_WARNING missing_name_message (JStr ''navigate_page'')])
              \<and> getp args ''url'' = getp mp ''url''))
   \<and> (\<not> truthy (getp mp ''selector'') \<and> \<not> truthy (getp mp ''url'') \<and> truthy (getp mp ''code'') \<longrightarrow>
        (\<exists>args. resolveCall ns step mp =
                  (Inr (JStr ''extension_evaluate_script'', args),
                   [LLM_WARNING missing_name_message (JStr ''extension_evaluate_script'')])
              \<and> getp args ''code'' = getp mp ''code''))
   \<and> (\<not> truthy (getp mp ''selector'') \<and> \<not> truthy (getp mp ''url'') \<and> \<not> truthy (getp mp ''code'')
        \<and> truthy (getp mp ''text'') \<and> typeof_string (getp mp ''text'') \<longrightarrow>
        (\<exists>args. resolveCall ns step mp =
                  (Inr (JStr ''extension_fill_selector'', args),
                   [LLM_WARNING missing_name_message (JStr ''extension_fill_selector'')])
              \<and> getp args ''selector'' = js_nc (getp mp ''selector'') (JStr ''input'')
              \<and> getp args ''value'' = getp mp ''text''))
   \<and> resolveCall ns inferred_fill_step (mergedParamsOf inferred_fill_step) =
        (Inr (JStr ''extension_fill_selector'', JObj [(''selector'', JStr ''#a''), (''value'', JStr ''x'')]),
         [LLM_WARNING missing_name_message (JStr ''extension_fill_selector'')])"
proof -
  have name: "\<not> truthy (toolNameOf step mp)"
    using assms by (simp add: toolNameOf_def js_or_def)
  have r: "resolveCall ns step mp =
      (case inferTool mp of
         None \<Rightarrow> (Inl ''call-tool-missing-name'', [])
       | Some (n, a) \<Rightarrow>
           (case normalizeArgs ns step mp (Some a) of
              Inl e \<Rightarrow> (Inl e, [LLM_WARNING missing_name_message (JStr n)])
            | Inr args \<Rightarrow> (Inr (JStr n, args), [LLM_WARNING missing_name_message (JStr n)])))"
    using name by (simp add: resolveCall_def resolveToolName_def split: option.splits)
  show ?thesis
    unfolding r
    by (simp add: inferTool_def normalizeArgs_inferred resolve_inferred_fill_step)
qed

theorem C6_inference_witness:
  "(\<exists>args. resolveCall (\<lambda>n. ''0'') inferred_fill_step fill_params =
            (Inr (JStr ''extension_fill_selector'', args),
             [LLM_WARNING missing_name_message (JStr ''extension_fill_selector'')])
          \<and> getp args ''selector'' = JStr ''#a'' \<and> getp args ''value'' = JStr ''x'')
   \<and> (\<exists>args. resolveCall (\<lambda>n. ''0'') (JObj [(''type'', JStr ''CALL_TOOL'')]) (JObj [(''selector'', JStr ''#b'')]) =
            (Inr (JStr ''extension_click_selector'', args),
             [LLM_WARNING missing_name_message (JStr ''extension_click_selector'')])
          \<and> getp args ''selector'' = JStr ''#b'')
   \<and> (\<exists>args. resolveCall (\<lambda>n. ''0'') (JObj [(''type'', JStr ''CALL_TOOL'')]) (JObj [(''url'', JStr ''https://a.example'')]) =
            (Inr (JStr ''navigate_page'', args),
             [LLM_WARNING missing_name_message (JStr ''navigate_page'')])
          \<and> getp args ''url'' = JStr ''https://a.example'')
   \<and> (\<exists>args. resolveCall (\<lambda>n. ''0'') (JObj [(''type'', JStr ''CALL_TOOL'')]) (JObj [(''code'', JStr ''1+1'')]) =
            (Inr (JStr ''extension_evaluate_script'', args),
             [LLM_WARNING missing_name_message (JStr ''extension_evaluate_script'')])
          \<and> getp args ''code'' = JStr ''1+1'')
   \<and> (\<exists>args. resolveCall (\<lambda>n. ''0'') (JObj [(''type'', JStr ''CALL_TOOL'')]) (JObj [(''text'', JStr ''hello'')]) =
            (Inr (JStr ''extension_fill_selector'', args),
             [LLM_WARNING missing_name_message (JStr ''extension_fill_selector'')])
          \<and> getp args ''selector'' = JStr ''input'' \<and> getp args ''value'' = JStr ''hello'')"
  using C6_inference[of fill_params inferred_fill_step "\<lambda>n. ''0''"]
    C6_inference[of "JObj [(''selector'', JStr ''#b'')]" "JObj [(''type'', JStr ''CALL_TOOL'')]" "\<lambda>n. ''0''"]
    C6_inference[of "JObj [(''url'', JStr ''https://a.example'')]" "JObj [(''type'', JStr ''CALL_TOOL'')]" "\<lambda>n. ''0''"]
    C6_inference[of "JObj [(''code'', JStr ''1+1'')]" "JObj [(''type'', JStr ''CALL_TOOL'')]" "\<lambda>n. ''0''"]
    C6_inference[of "JObj [(''text'', JStr ''hello'')]" "JObj [(''type'', JStr ''CALL_TOOL'')]" "\<lambda>n. ''0''"]
  by (simp add: fill_params_def inferred_fill_step_def js_nc_def nullish_def)

text \<open>
  Claim C9.  A \<^verbatim>\<open>CALL_TOOL\<close> step with no truthy tool name in any encoding the resolver
  reads (\<^verbatim>\<open>tool\<close>, \<^verbatim>\<open>toolName\<close>, \<^verbatim>\<open>tool_name\<close>, \<^verbatim>\<open>name\<close> in params; \<^verbatim>\<open>tool\<close>, \<^verbatim>\<open>toolName\<close>,
  \<^verbatim>\<open>tool_name\<close> at the top level) and whose params match none of the inference patterns (in
  particular: empty params) fails with \<^verbatim>\<open>call-tool-missing-name\<close>, and the run stops there.
\<close>

theorem C9_missing_name_fails:
  assumes "getp step ''type'' = JStr ''CALL_TOOL''"
    and "mergedParamsOf step = mp"
    and "\<not> truthy (getp mp ''tool'')" and "\<not> truthy (getp mp ''toolName'')"
    and "\<not> truthy (getp mp ''tool_name'')" and "\<not> truthy (getp mp ''name'')"
    and "\<not> truthy (getp step ''tool'')" and "\<not> truthy (getp step ''toolName'')"
    and "\<not> truthy (getp step ''tool_name'')"
    and "\<not> truthy (getp mp ''selector'')" and "\<not> truthy (getp mp ''url'')"
    and "\<not> truthy (getp mp ''code'')"
    and "\<not> (truthy (getp mp ''text'') \<and> typeof_string (getp mp ''text''))"
  shows "execStep env tabId ctx i step w = (Inl ''call-tool-missing-name'', w, [])
       \<and> runSteps env tabId ctx i (step # rest) w =
           ([Failure ''call-tool-missing-name''], w,
            [LLM_PROGRESS Running i JUndefined, LLM_PROGRESS Failed i (JStr ''call-tool-missing-name'')])"
proof -
  have nn: "\<not> nullish step"
    using assms(1) getp_not_nullish[of step "''type''"] by auto
  have name: "\<not> truthy (toolNameOf step mp)"
    using assms(3-9) by (simp add: toolNameOf_def js_or_def)
  have shape: "inferTool mp = None"
    using assms(10-13) by (simp add: inferTool_def)
  have "execStep env tabId ctx i step w = (Inl ''call-tool-missing-name'', w, [])"
    using nn assms(1) callToolStep_missing_name[OF name shape]
    by (simp add: execStep_def Let_def assms(2))
  then show ?thesis by simp
qed

theorem C9_missing_name_fails_witness:
  "mergedParamsOf nameless_step = JObj []
   \<and> execStep example_env JUndefined JNull 0 nameless_step () = (Inl ''call-tool-missing-name'', (), [])"
proof -
  have mp: "mergedParamsOf nameless_step = JObj []"
    by (simp add: nameless_step_def mergedParamsOf_def)
  have ty: "getp nameless_step ''type'' = JStr ''CALL_TOOL''"
    by (simp add: nameless_step_def)
  have top: "\<not> truthy (getp nameless_step ''tool'')" "\<not> truthy (getp nameless_step ''toolName'')"
    "\<not> truthy (getp nameless_step ''tool_name'')"
    by (simp_all add: nameless_step_def)
  show ?thesis
    using C9_missing_name_fails[OF ty mp, of example_env JUndefined JNull 0 "()" "[]"] top mp
    by simp
qed

section \<open>Properties of the bridge client\<close>

lemma rejectAll_eq:
  "rejectAll msg ps b =
     (b\<lparr>pending := filter (\<lambda>kv. fst kv \<notin> fst ` set ps) (pending b),
        timers := filter (\<lambda>t. fst t \<notin> (\<lambda>kv. timeoutId (snd kv)) ` set ps) (timers b)\<rparr>,
      map (\<lambda>kv. Rejected (fst kv) msg) ps)"
proof (induction ps arbitrary: b)
  case Nil
  then show ?case by simp
next
  case (Cons kv ps)
  obtain rid p where kv: "kv = (rid, p)" by (cases kv)
  have f1: "filter (\<lambda>kv. fst kv \<notin> fst ` set ps) (AList.delete rid (pending b))
          = filter (\<lambda>kv. fst kv \<noteq> rid \<and> fst kv \<notin> fst ` set ps) (pending b)"
    by (auto simp: AList.delete_eq intro: filter_cong)
  have f2: "filter (\<lambda>t. fst t \<notin> (\<lambda>kv. timeoutId (snd kv)) ` set ps) (AList.delete (timeoutId p) (timers b))
          = filter (\<lambda>t. fst t \<noteq> timeoutId p \<and> fst t \<notin> (\<lambda>kv. timeoutId (snd kv)) ` set ps) (timers b)"
    by (auto simp: AList.delete_eq intro: filter_cong)
  show ?case
    by (simp add: kv Cons.IH clearTimeout_def f1 f2)
qed

lemma rejectAll_pending:
  "rejectAll msg (pending b) b =
     (b\<lparr>pending := [],
        timers := filter (\<lambda>t. fst t \<notin> (\<lambda>kv. timeoutId (snd kv)) ` set (pending b)) (timers b)\<rparr>,
      map (\<lambda>kv. Rejected (fst kv) msg) (pending b))"
proof -
  have "filter (\<lambda>kv. fst kv \<notin> fst ` set (pending b)) (pending b) = []"
    by (simp add: filter_empty_conv)
  then show ?thesis by (simp add: rejectAll_eq)
qed

text \<open>
  Claim C7, as amended.  A \<^verbatim>\<open>callTool\<close> made while the status is not \<^verbatim>\<open>connected\<close>
  rejects at once with the error \<^verbatim>\<open>mcp-disconnected\<close>; the bridge is unchanged (no
  pending entry, no timer, no request id used) and nothing is done to the outside (nothing
  is written to the socket).
\<close>

theorem C7_call_while_not_connected:
  assumes "status b \<noteq> Connected"
  shows "bridgeCallTool name args b = (Inl ''mcp-disconnected'', b, [])"
  using assms by (simp add: bridgeCallTool_def bridgeIsConnected_def)

theorem C7_call_while_not_connected_witness:
  "status initial \<noteq> Connected
   \<and> bridgeCallTool (JStr ''list_pages'') (JObj []) initial = (Inl ''mcp-disconnected'', initial, [])"
  using C7_call_while_not_connected[of initial "JStr ''list_pages''" "JObj []"]
  by (simp add: initial_def)

text \<open>
  Claim C7 as stated names the error \<^verbatim>\<open>disconnected\<close>; the message of the error thrown
  is \<^verbatim>\<open>mcp-disconnected\<close>.
\<close>

theorem C7_counterexample:
  "fst (bridgeCallTool (JStr ''list_pages'') (JObj []) initial) = Inl ''mcp-disconnected''
   \<and> fst (bridgeCallTool (JStr ''list_pages'') (JObj []) initial) \<noteq> Inl ''disconnected''"
  by (simp add: bridgeCallTool_def bridgeIsConnected_def initial_def)

lemma updateStatus_eq:
  "updateStatus next b =
     (b\<lparr>status := next\<rparr>,
      if status b = next then [] else map (\<lambda>l. StatusNotified l next) (statusListeners b))"
  by (cases "status b = next") (auto simp: updateStatus_def)

lemma teardown_eq:
  "teardown error suppress b =
     (let msg = (case error of Some m \<Rightarrow> m | None \<Rightarrow> ''MCP bridge disconnected before response arrived.'');
          b1 = (case socket b of Some h \<Rightarrow> fst (closeSocket h b) | None \<Rightarrow> b);
          b3 = b1\<lparr>socket := None, status := Disconnected, pending := [],
                  timers := filter (\<lambda>t. fst t \<notin> (\<lambda>kv. timeoutId (snd kv)) ` set (pending b)) (timers b)\<rparr>
      in (if suppress \<or> no_url b then clearReconnectTimer b3 else scheduleReconnect b3,
          (case socket b of Some h \<Rightarrow> [SocketClose h] | None \<Rightarrow> [])
          @ (if status b = Disconnected then []
             else map (\<lambda>l. StatusNotified l Disconnected) (statusListeners b))
          @ map (\<lambda>kv. Rejected (fst kv) msg) (pending b)))"
  by (cases "socket b")
     (simp_all add: teardown_def closeSocket_def updateStatus_eq rejectAll_pending no_url_def Let_def)


lemma reconnectTimer_clearReconnectTimer [simp]: "reconnectTimer (clearReconnectTimer b) = None"
  by (simp add: clearReconnectTimer_def clearTimeout_def split: option.splits)

lemma url_clearReconnectTimer [simp]: "url (clearReconnectTimer b) = url b"
  by (simp add: clearReconnectTimer_def clearTimeout_def split: option.splits)

lemma pending_clearReconnectTimer [simp]: "pending (clearReconnectTimer b) = pending b"
  by (simp add: clearReconnectTimer_def clearTimeout_def split: option.splits)

lemma pending_scheduleReconnect [simp]: "pending (scheduleReconnect b) = pending b"
  by (simp add: scheduleReconnect_def setTimeout_def)

lemma status_clearReconnectTimer [simp]: "status (clearReconnectTimer b) = status b"
  by (simp add: clearReconnectTimer_def clearTimeout_def split: option.splits)

lemma status_scheduleReconnect [simp]: "status (scheduleReconnect b) = status b"
  by (simp add: scheduleReconnect_def setTimeout_def)

lemma handleDisconnect_eq:
  "handleDisconnect error b =
     (let msg = (case error of Some m \<Rightarrow> m | None \<Rightarrow> ''MCP bridge disconnected before response arrived.'')
      in (scheduleReconnect0
            (b\<lparr>socket := None, status := Disconnected, pending := [],
               timers := filter (\<lambda>t. fst t \<notin> (\<lambda>kv. timeoutId (snd kv)) ` set (pending b)) (timers b)\<rparr>),
          (if status b = Disconnected then []
           else map (\<lambda>l. StatusNotified l Disconnected) (statusListeners b))
          @ map (\<lambda>kv. Rejected (fst kv) msg) (pending b)))"
  by (simp add: handleDisconnect_def updateStatus_eq rejectAll_pending Let_def)

lemma show_nat_1: "show_nat (Suc 0) = ''1''"
  by (simp add: show_nat.simps digit_char_def)

lemma busy_bridge_reachable:
  "fst (run example_host
          [OnStatusChange 7, SetUrl (Some ''ws://bridge.example''), SocketOpened 0,
           CallTool (JStr ''list_pages'') (JObj [])] initial) = busy_bridge"
  by (simp add: initial_def busy_bridge_def example_host_def onStatusChange_def setUrl_def
      normalizeUrl_def trim_def trimEnd_def white_space1_def white_space2_def
      white_space3_def teardown_eq no_url_def clearReconnectTimer_def
      connect_def updateStatus_eq socketOpened_def bridgeCallTool_def bridgeIsConnected_def
      sendRequest_def setTimeout_def increment_def show_nat_1 Let_def)

text \<open>
  Claim C2, as amended.  \<^verbatim>\<open>teardown\<close> (and \<^verbatim>\<open>handleDisconnect\<close> of the earlier version)
  first closes the socket, then, if the status was not already \<^verbatim>\<open>disconnected\<close>, sets it
  and calls every status listener with \<^verbatim>\<open>disconnected\<close>, and only then rejects every
  pending call, in the order of the pending map, with the given error or the default
  disconnection error.  When it returns, the status is \<^verbatim>\<open>disconnected\<close> and no pending
  call is left.
\<close>

theorem C2_teardown_order:
  "snd (teardown error suppress b) =
      (case socket b of Some h \<Rightarrow> [SocketClose h] | None \<Rightarrow> [])
      @ (if status b = Disconnected then []
         else map (\<lambda>l. StatusNotified l Disconnected) (statusListeners b))
      @ map (\<lambda>kv. Rejected (fst kv)
                (case error of Some m \<Rightarrow> m
                 | None \<Rightarrow> ''MCP bridge disconnected before response arrived.'')) (pending b)
   \<and> status (fst (teardown error suppress b)) = Disconnected
   \<and> pending (fst (teardown error suppress b)) = []
   \<and> snd (handleDisconnect error b) =
      (if status b = Disconnected then []
       else map (\<lambda>l. StatusNotified l Disconnected) (statusListeners b))
      @ map (\<lambda>kv. Rejected (fst kv)
                (case error of Some m \<Rightarrow> m
                 | None \<Rightarrow> ''MCP bridge disconnected before response arrived.'')) (pending b)
   \<and> pending (fst (handleDisconnect error b)) = []"
  by (simp add: teardown_eq handleDisconnect_eq Let_def scheduleReconnect0_def setTimeout_def)

text \<open>
  Claim C2 as stated fails: when the socket of a connected bridge with one call in flight
  closes, listener 7 is told \<^verbatim>\<open>disconnected\<close> before request 1 is rejected.
\<close>

theorem C2_counterexample:
  "snd (bridge_step example_host (SocketClosed 0) busy_bridge) =
     [SocketClose 0, StatusNotified 7 Disconnected,
      Rejected ''1'' ''MCP bridge disconnected before response arrived.'']"
  by (simp add: busy_bridge_def socketClosed_def teardown_eq Let_def)

lemma trimStart_white:
  assumes "c \<in> set white_space"
  shows "trimStart (c @ rest) = trimStart rest"
proof -
  have l2: "\<And>a b. (a, b) \<in> set white_space2 \<Longrightarrow> a \<notin> set white_space1"
    by (auto simp: white_space1_def white_space2_def)
  have l3: "\<And>a b c. (a, b, c) \<in> set white_space3 \<Longrightarrow>
              a \<notin> set white_space1 \<and> (a, b) \<notin> set white_space2"
    by (auto simp: white_space1_def white_space2_def white_space3_def)
  consider a where "c = [a]" "a \<in> set white_space1"
    | a b where "c = [a, b]" "(a, b) \<in> set white_space2"
    | a b d where "c = [a, b, d]" "(a, b, d) \<in> set white_space3"
    using assms by (auto simp: white_space_def)
  then show ?thesis
  proof cases
    case 1
    then show ?thesis by (cases rest rule: trimStart.cases) simp_all
  next
    case 2
    then show ?thesis using l2[OF 2(2)] by (cases rest) simp_all
  next
    case 3
    then show ?thesis using l3[OF 3(2)] by simp
  qed
qed

lemma trimStart_blank: "set cs \<subseteq> set white_space \<Longrightarrow> trimStart (concat cs) = []"
  by (induction cs) (simp_all add: trimStart_white)

lemma trim_blank: "set cs \<subseteq> set white_space \<Longrightarrow> trim (concat cs) = []"
  by (simp add: trim_def trimEnd_def trimStart_blank)

lemma setUrl_blank:
  assumes "normalizeUrl next = None"
  shows "setUrl hst next b =
           teardown (Some ''MCP bridge disabled by configuration.'') True (b\<lparr>url := None\<rparr>)"
proof (cases "url b")
  case None
  then have e: "b\<lparr>url := None\<rparr> = b" by simp
  have "setUrl hst next b = teardown (Some ''MCP bridge disabled by configuration.'') True b"
    using assms None by (simp add: setUrl_def Let_def)
  then show ?thesis unfolding e .
next
  case (Some u)
  then show ?thesis using assms by (simp add: setUrl_def Let_def no_url_def)
qed

text \<open>
  Claim C10.  \<^verbatim>\<open>setUrl\<close> with a string of white space only, that is, with any sequence
  \<open>cs\<close> of the characters \<^verbatim>\<open>trim\<close> strips (the empty string included), does exactly what
  \<^verbatim>\<open>setUrl(null)\<close> does.  Afterwards \<^verbatim>\<open>getUrl()\<close> is \<^verbatim>\<open>null\<close>, there is
  no socket (the one there was has been closed), the status is \<^verbatim>\<open>disconnected\<close>, every
  pending call has been rejected with the configuration error and none is left, no
  reconnect timer is set and no timer has been added; and when a socket closes
  afterwards (the one just closed, say), still no reconnect timer is set.
\<close>

theorem C10_blank_url_is_null:
  assumes "set cs \<subseteq> set white_space"
  shows "setUrl hst (Some (concat cs)) b = setUrl hst None b
       \<and> getUrl (fst (setUrl hst (Some (concat cs)) b)) = None
       \<and> socket (fst (setUrl hst (Some (concat cs)) b)) = None
       \<and> status (fst (setUrl hst (Some (concat cs)) b)) = Disconnected
       \<and> pending (fst (setUrl hst (Some (concat cs)) b)) = []
       \<and> reconnectTimer (fst (setUrl hst (Some (concat cs)) b)) = None
       \<and> set (timers (fst (setUrl hst (Some (concat cs)) b))) \<subseteq> set (timers b)
       \<and> reconnectTimer (fst (bridge_step hst (SocketClosed h) (fst (setUrl hst (Some (concat cs)) b)))) = None
       \<and> snd (setUrl hst (Some (concat cs)) b) =
           (case socket b of Some h \<Rightarrow> [SocketClose h] | None \<Rightarrow> [])
           @ (if status b = Disconnected then []
              else map (\<lambda>l. StatusNotified l Disconnected) (statusListeners b))
           @ map (\<lambda>kv. Rejected (fst kv) ''MCP bridge disabled by configuration.'') (pending b)"
proof -
  have n: "normalizeUrl (Some (concat cs)) = None"
    using trim_blank[OF assms] by (simp add: normalizeUrl_def)
  have n0: "normalizeUrl None = None"
    by (simp add: normalizeUrl_def)
  let ?b' = "fst (teardown (Some ''MCP bridge disabled by configuration.'') True (b\<lparr>url := None\<rparr>))"
  have u: "url ?b' = None" and rt: "reconnectTimer ?b' = None"
    by (simp_all add: teardown_eq Let_def closeSocket_def split: option.splits)
  have e: "fst (setUrl hst (Some (concat cs)) b) = ?b'"
    by (simp add: setUrl_blank[OF n])
  have later: "reconnectTimer (fst (bridge_step hst (SocketClosed h) (fst (setUrl hst (Some (concat cs)) b)))) = None"
    unfolding e using u rt by (simp add: socketClosed_def teardown_eq Let_def no_url_def)
  have now: "setUrl hst (Some (concat cs)) b = setUrl hst None b
       \<and> getUrl (fst (setUrl hst (Some (concat cs)) b)) = None
       \<and> socket (fst (setUrl hst (Some (concat cs)) b)) = None
       \<and> status (fst (setUrl hst (Some (concat cs)) b)) = Disconnected
       \<and> pending (fst (setUrl hst (Some (concat cs)) b)) = []
       \<and> reconnectTimer (fst (setUrl hst (Some (concat cs)) b)) = None
       \<and> set (timers (fst (setUrl hst (Some (concat cs)) b))) \<subseteq> set (timers b)
       \<and> snd (setUrl hst (Some (concat cs)) b) =
           (case socket b of Some h \<Rightarrow> [SocketClose h] | None \<Rightarrow> [])
           @ (if status b = Disconnected then []
              else map (\<lambda>l. StatusNotified l Disconnected) (statusListeners b))
           @ map (\<lambda>kv. Rejected (fst kv) ''MCP bridge disabled by configuration.'') (pending b)"
    unfolding setUrl_blank[OF n] setUrl_blank[OF n0]
    by (cases "socket b"; cases "reconnectTimer b")
       (auto simp: teardown_eq Let_def getUrl_def clearReconnectTimer_def clearTimeout_def
          closeSocket_def AList.delete_eq)
  show ?thesis
    using now later by blast
qed

theorem C10_blank_url_is_null_witness:
  "getUrl (fst (setUrl example_host
                  (Some [CHR 0x20, CHR 0xC2, CHR 0xA0, CHR 0x09, CHR 0xE2, CHR 0x80, CHR 0xA8])
                  busy_bridge)) = None
   \<and> snd (setUrl example_host
              (Some [CHR 0x20, CHR 0xC2, CHR 0xA0, CHR 0x09, CHR 0xE2, CHR 0x80, CHR 0xA8])
              busy_bridge) =
       [SocketClose 0, StatusNotified 7 Disconnected,
        Rejected ''1'' ''MCP bridge disabled by configuration.'']"
proof -
  have "set [[CHR 0x20], [CHR 0xC2, CHR 0xA0], [CHR 0x09], [CHR 0xE2, CHR 0x80, CHR 0xA8]]
          \<subseteq> set white_space"
    by (simp add: white_space_def white_space1_def white_space2_def white_space3_def)
  from C10_blank_url_is_null[OF this, of example_host busy_bridge 0, simplified concat.simps append.simps]
  have "getUrl (fst (setUrl example_host
                  (Some [CHR 0x20, CHR 0xC2, CHR 0xA0, CHR 0x09, CHR 0xE2, CHR 0x80, CHR 0xA8])
                  busy_bridge)) = None"
    and "snd (setUrl example_host
              (Some [CHR 0x20, CHR 0xC2, CHR 0xA0, CHR 0x09, CHR 0xE2, CHR 0x80, CHR 0xA8])
              busy_bridge) =
           (case socket busy_bridge of Some h \<Rightarrow> [SocketClose h] | None \<Rightarrow> [])
           @ (if status busy_bridge = Disconnected then []
              else map (\<lambda>l. StatusNotified l Disconnected) (statusListeners busy_bridge))
           @ map (\<lambda>kv. Rejected (fst kv) ''MCP bridge disabled by configuration.'') (pending busy_bridge)"
    by blast+
  then show ?thesis by (simp add: busy_bridge_def)
qed

subsection \<open>Request ids, timers and single settlement\<close>

lemma digit_char_inj: "d < 10 \<Longrightarrow> e < 10 \<Longrightarrow> digit_char d = digit_char e \<Longrightarrow> d = e"
  unfolding digit_char_def using nth_eq_iff_index_eq[of "''0123456789''" d e] by simp

lemma show_nat_nonempty: "show_nat n \<noteq> []"
  by (subst show_nat.simps) simp

lemma show_nat_small: "n < 10 \<Longrightarrow> show_nat n = [digit_char n]"
  by (subst show_nat.simps) simp

lemma show_nat_big: "\<not> n < 10 \<Longrightarrow> show_nat n = show_nat (n div 10) @ [digit_char (n mod 10)]"
  by (subst show_nat.simps) simp

lemma show_nat_inj: "show_nat m = show_nat n \<Longrightarrow> m = n"
proof (induction m arbitrary: n rule: show_nat.induct)
  case (1 m)
  show ?case
  proof (cases "m < 10")
    case True
    note m = this
    show ?thesis
    proof (cases "n < 10")
      case True
      with m "1.prems" show ?thesis
        by (simp add: show_nat_small digit_char_inj)
    next
      case False
      with m "1.prems" have "show_nat (n div 10) = []"
        by (simp add: show_nat_small show_nat_big)
      then show ?thesis using show_nat_nonempty by blast
    qed
  next
    case False
    note m = this
    show ?thesis
    proof (cases "n < 10")
      case True
      with m "1.prems" have "show_nat (m div 10) = []"
        by (simp add: show_nat_small show_nat_big)
      then show ?thesis using show_nat_nonempty by blast
    next
      case False
      with m "1.prems" have a: "show_nat (m div 10) = show_nat (n div 10)"
        and b: "digit_char (m mod 10) = digit_char (n mod 10)"
        by (simp_all add: show_nat_big)
      have "m div 10 = n div 10" using "1.IH"[OF m a] .
      moreover have "m mod 10 = n mod 10" using b by (simp add: digit_char_inj)
      ultimately show ?thesis by (metis div_mult_mod_eq)
    qed
  qed
qed

lemma tables_invI:
  assumes "distinct (map fst ps)"
    and "\<And>rid. rid \<in> fst ` set ps \<Longrightarrow> \<exists>k<nid. rid = show_nat k"
    and "\<And>rid. rid \<in> set hist \<Longrightarrow> \<exists>k<nid. rid = show_nat k"
    and "\<And>rid. rid \<in> set hist \<Longrightarrow> rid \<notin> fst ` set ps"
    and "distinct hist"
    and "\<And>k. 0 < k \<Longrightarrow> k < nid \<Longrightarrow> show_nat k \<in> fst ` set ps \<or> show_nat k \<in> set hist"
    and "distinct (map fst ts)"
    and "\<And>h. h \<in> fst ` set ts \<Longrightarrow> h < nt"
    and "\<And>h. rt = Some h \<Longrightarrow> h < nt"
    and "\<And>h rid. rt = Some h \<Longrightarrow> (h, RequestTimeout rid) \<notin> set ts"
    and "\<And>h rid. (h, RequestTimeout rid) \<in> set ts \<Longrightarrow> (rid, \<lparr>timeoutId = h\<rparr>) \<in> set ps"
    and "\<And>rid p. (rid, p) \<in> set ps \<Longrightarrow> (timeoutId p, RequestTimeout rid) \<in> set ts"
  shows "tables_inv ps ts nid nt rt hist"
  unfolding tables_inv_def using assms by blast

lemma tables_inv_dps: "tables_inv ps ts nid nt rt hist \<Longrightarrow> distinct (map fst ps)"
  unfolding tables_inv_def by blast

lemma tables_inv_bound: "tables_inv ps ts nid nt rt hist \<Longrightarrow> rid \<in> fst ` set ps \<Longrightarrow> \<exists>k<nid. rid = show_nat k"
  unfolding tables_inv_def by blast

lemma tables_inv_hist_bound: "tables_inv ps ts nid nt rt hist \<Longrightarrow> rid \<in> set hist \<Longrightarrow> \<exists>k<nid. rid = show_nat k"
  unfolding tables_inv_def by blast

lemma tables_inv_hist_fresh: "tables_inv ps ts nid nt rt hist \<Longrightarrow> rid \<in> set hist \<Longrightarrow> rid \<notin> fst ` set ps"
  unfolding tables_inv_def by blast

lemma tables_inv_dhist: "tables_inv ps ts nid nt rt hist \<Longrightarrow> distinct hist"
  unfolding tables_inv_def by blast

lemma tables_inv_complete:
  "tables_inv ps ts nid nt rt hist \<Longrightarrow> 0 < k \<Longrightarrow> k < nid \<Longrightarrow>
   show_nat k \<in> fst ` set ps \<or> show_nat k \<in> set hist"
  unfolding tables_inv_def by blast

lemma tables_inv_dts: "tables_inv ps ts nid nt rt hist \<Longrightarrow> distinct (map fst ts)"
  unfolding tables_inv_def by blast

lemma tables_inv_ts_bound: "tables_inv ps ts nid nt rt hist \<Longrightarrow> h \<in> fst ` set ts \<Longrightarrow> h < nt"
  unfolding tables_inv_def by blast

lemma tables_inv_rt_bound: "tables_inv ps ts nid nt (Some h) hist \<Longrightarrow> h < nt"
  unfolding tables_inv_def by blast

lemma tables_inv_rt_sep: "tables_inv ps ts nid nt (Some h) hist \<Longrightarrow> (h, RequestTimeout rid) \<notin> set ts"
  unfolding tables_inv_def by blast

lemma tables_inv_timer_pending:
  "tables_inv ps ts nid nt rt hist \<Longrightarrow> (h, RequestTimeout rid) \<in> set ts \<Longrightarrow> (rid, \<lparr>timeoutId = h\<rparr>) \<in> set ps"
  unfolding tables_inv_def by blast

lemma tables_inv_pending_timer:
  "tables_inv ps ts nid nt rt hist \<Longrightarrow> (rid, p) \<in> set ps \<Longrightarrow> (timeoutId p, RequestTimeout rid) \<in> set ts"
  unfolding tables_inv_def by blast

lemma set_delete: "set (AList.delete k xs) = {x \<in> set xs. fst x \<noteq> k}"
  by (auto simp: AList.delete_eq)

lemma distinct_delete: "distinct (map fst xs) \<Longrightarrow> distinct (map fst (AList.delete k xs))"
  by (simp add: AList.delete_eq distinct_map_filter)

lemma tables_inv_clear_reconnect:
  assumes i: "tables_inv ps ts nid nt (Some h) hist"
  shows "tables_inv ps (AList.delete h ts) nid nt None hist"
proof (rule tables_invI)
  show "distinct (map fst ps)" by (rule tables_inv_dps[OF i])
  show "\<And>rid. rid \<in> fst ` set ps \<Longrightarrow> \<exists>k<nid. rid = show_nat k" by (rule tables_inv_bound[OF i])
  show "\<And>rid. rid \<in> set hist \<Longrightarrow> \<exists>k<nid. rid = show_nat k" by (rule tables_inv_hist_bound[OF i])
  show "\<And>rid. rid \<in> set hist \<Longrightarrow> rid \<notin> fst ` set ps" by (rule tables_inv_hist_fresh[OF i])
  show "distinct hist" by (rule tables_inv_dhist[OF i])
  show "\<And>k. 0 < k \<Longrightarrow> k < nid \<Longrightarrow> show_nat k \<in> fst ` set ps \<or> show_nat k \<in> set hist"
    by (rule tables_inv_complete[OF i])
  show "distinct (map fst (AList.delete h ts))" by (rule distinct_delete[OF tables_inv_dts[OF i]])
  show "\<And>h'. h' \<in> fst ` set (AList.delete h ts) \<Longrightarrow> h' < nt"
    using tables_inv_ts_bound[OF i] by (auto simp: set_delete)
  show "\<And>h'. None = Some h' \<Longrightarrow> h' < nt" by simp
  show "\<And>h' rid. None = Some h' \<Longrightarrow> (h', RequestTimeout rid) \<notin> set (AList.delete h ts)" by simp
  show "\<And>h' rid. (h', RequestTimeout rid) \<in> set (AList.delete h ts) \<Longrightarrow> (rid, \<lparr>timeoutId = h'\<rparr>) \<in> set ps"
    using tables_inv_timer_pending[OF i] by (simp add: set_delete)
  show "\<And>rid p. (rid, p) \<in> set ps \<Longrightarrow> (timeoutId p, RequestTimeout rid) \<in> set (AList.delete h ts)"
  proof -
    fix rid p assume rp: "(rid, p) \<in> set ps"
    have a: "(timeoutId p, RequestTimeout rid) \<in> set ts" by (rule tables_inv_pending_timer[OF i rp])
    have "timeoutId p \<noteq> h" using a tables_inv_rt_sep[OF i] by metis
    then show "(timeoutId p, RequestTimeout rid) \<in> set (AList.delete h ts)"
      using a by (simp add: set_delete)
  qed
qed

lemma tables_inv_forget_reconnect:
  "tables_inv ps ts nid nt rt hist \<Longrightarrow> tables_inv ps ts nid nt None hist"
  unfolding tables_inv_def by simp

lemma tables_inv_schedule:
  assumes i: "tables_inv ps ts nid nt None hist"
  shows "tables_inv ps (ts @ [(nt, Reconnect)]) nid (Suc nt) (Some nt) hist"
proof (rule tables_invI)
  show "distinct (map fst ps)" by (rule tables_inv_dps[OF i])
  show "\<And>rid. rid \<in> fst ` set ps \<Longrightarrow> \<exists>k<nid. rid = show_nat k" by (rule tables_inv_bound[OF i])
  show "\<And>rid. rid \<in> set hist \<Longrightarrow> \<exists>k<nid. rid = show_nat k" by (rule tables_inv_hist_bound[OF i])
  show "\<And>rid. rid \<in> set hist \<Longrightarrow> rid \<notin> fst ` set ps" by (rule tables_inv_hist_fresh[OF i])
  show "distinct hist" by (rule tables_inv_dhist[OF i])
  show "\<And>k. 0 < k \<Longrightarrow> k < nid \<Longrightarrow> show_nat k \<in> fst ` set ps \<or> show_nat k \<in> set hist"
    by (rule tables_inv_complete[OF i])
  have fresh: "nt \<notin> fst ` set ts" using tables_inv_ts_bound[OF i] by blast
  show "distinct (map fst (ts @ [(nt, Reconnect)]))"
    using tables_inv_dts[OF i] fresh by simp
  show "\<And>h. h \<in> fst ` set (ts @ [(nt, Reconnect)]) \<Longrightarrow> h < Suc nt"
    using tables_inv_ts_bound[OF i] by (auto simp: less_Suc_eq)
  show "\<And>h. Some nt = Some h \<Longrightarrow> h < Suc nt" by simp
  show "\<And>h rid. Some nt = Some h \<Longrightarrow> (h, RequestTimeout rid) \<notin> set (ts @ [(nt, Reconnect)])"
    using fresh by (auto simp: image_iff)
  show "\<And>h rid. (h, RequestTimeout rid) \<in> set (ts @ [(nt, Reconnect)]) \<Longrightarrow> (rid, \<lparr>timeoutId = h\<rparr>) \<in> set ps"
    using tables_inv_timer_pending[OF i] by simp
  show "\<And>rid p. (rid, p) \<in> set ps \<Longrightarrow> (timeoutId p, RequestTimeout rid) \<in> set (ts @ [(nt, Reconnect)])"
    using tables_inv_pending_timer[OF i] by simp
qed

lemma tables_inv_reject_all:
  assumes i: "tables_inv ps ts nid nt rt hist"
  shows "tables_inv [] (filter (\<lambda>t. fst t \<notin> (\<lambda>kv. timeoutId (snd kv)) ` set ps) ts) nid nt rt (hist @ map fst ps)"
proof (rule tables_invI)
  let ?ts = "filter (\<lambda>t. fst t \<notin> (\<lambda>kv. timeoutId (snd kv)) ` set ps) ts"
  show "distinct (map fst [])" by simp
  show "\<And>rid. rid \<in> fst ` set [] \<Longrightarrow> \<exists>k<nid. rid = show_nat k" by simp
  show "\<And>rid. rid \<in> set (hist @ map fst ps) \<Longrightarrow> \<exists>k<nid. rid = show_nat k"
    using tables_inv_hist_bound[OF i] tables_inv_bound[OF i] by auto
  show "\<And>rid. rid \<in> set (hist @ map fst ps) \<Longrightarrow> rid \<notin> fst ` set []" by simp
  show "distinct (hist @ map fst ps)"
    using tables_inv_dhist[OF i] tables_inv_dps[OF i] tables_inv_hist_fresh[OF i] by auto
  show "\<And>k. 0 < k \<Longrightarrow> k < nid \<Longrightarrow>
          show_nat k \<in> fst ` set [] \<or> show_nat k \<in> set (hist @ map fst ps)"
    using tables_inv_complete[OF i] by auto
  show "distinct (map fst ?ts)"
    using tables_inv_dts[OF i] by (simp add: distinct_map_filter)
  show "\<And>h. h \<in> fst ` set ?ts \<Longrightarrow> h < nt"
    using tables_inv_ts_bound[OF i] by auto
  show "\<And>h. rt = Some h \<Longrightarrow> h < nt"
    using i tables_inv_rt_bound by blast
  show "\<And>h rid. rt = Some h \<Longrightarrow> (h, RequestTimeout rid) \<notin> set ?ts"
    using i tables_inv_rt_sep by auto
  show "\<And>h rid. (h, RequestTimeout rid) \<in> set ?ts \<Longrightarrow> (rid, \<lparr>timeoutId = h\<rparr>) \<in> set []"
  proof -
    fix h rid assume a: "(h, RequestTimeout rid) \<in> set ?ts"
    then have "(rid, \<lparr>timeoutId = h\<rparr>) \<in> set ps" using tables_inv_timer_pending[OF i] by simp
    then have "h \<in> (\<lambda>kv. timeoutId (snd kv)) ` set ps" by force
    with a show "(rid, \<lparr>timeoutId = h\<rparr>) \<in> set []" by simp
  qed
  show "\<And>rid p. (rid, p) \<in> set [] \<Longrightarrow> (timeoutId p, RequestTimeout rid) \<in> set ?ts" by simp
qed

lemma tables_inv_settle_one:
  assumes i: "tables_inv ps ts nid nt rt hist" and rp: "(rid, p) \<in> set ps"
  shows "tables_inv (AList.delete rid ps) (AList.delete (timeoutId p) ts) nid nt rt (hist @ [rid])"
proof (rule tables_invI)
  have other: "\<And>r q. (r, q) \<in> set ps \<Longrightarrow> r \<noteq> rid \<Longrightarrow> timeoutId q \<noteq> timeoutId p"
  proof
    fix r q assume rq: "(r, q) \<in> set ps" "r \<noteq> rid" "timeoutId q = timeoutId p"
    have "(timeoutId p, RequestTimeout r) \<in> set ts" "(timeoutId p, RequestTimeout rid) \<in> set ts"
      using tables_inv_pending_timer[OF i rq(1)] tables_inv_pending_timer[OF i rp] rq(3) by simp_all
    then have "RequestTimeout r = RequestTimeout rid"
      using tables_inv_dts[OF i] by (rule_tac eq_key_imp_eq_value)
    then show False using rq(2) by simp
  qed
  show "distinct (map fst (AList.delete rid ps))" by (rule distinct_delete[OF tables_inv_dps[OF i]])
  show "\<And>r. r \<in> fst ` set (AList.delete rid ps) \<Longrightarrow> \<exists>k<nid. r = show_nat k"
    using tables_inv_bound[OF i] by (auto simp: set_delete)
  show "\<And>r. r \<in> set (hist @ [rid]) \<Longrightarrow> \<exists>k<nid. r = show_nat k"
    using tables_inv_hist_bound[OF i] tables_inv_bound[OF i, of rid] rp by force
  show "\<And>r. r \<in> set (hist @ [rid]) \<Longrightarrow> r \<notin> fst ` set (AList.delete rid ps)"
    using tables_inv_hist_fresh[OF i] by (auto simp: set_delete)
  show "distinct (hist @ [rid])"
    using tables_inv_dhist[OF i] tables_inv_hist_fresh[OF i, of rid] rp by force
  show "\<And>k. 0 < k \<Longrightarrow> k < nid \<Longrightarrow>
          show_nat k \<in> fst ` set (AList.delete rid ps) \<or> show_nat k \<in> set (hist @ [rid])"
  proof -
    fix k :: nat assume k: "0 < k" "k < nid"
    show "show_nat k \<in> fst ` set (AList.delete rid ps) \<or> show_nat k \<in> set (hist @ [rid])"
    proof (cases "show_nat k = rid")
      case True
      then show ?thesis by simp
    next
      case False
      then show ?thesis
        using tables_inv_complete[OF i k] by (auto simp: set_delete image_iff)
    qed
  qed
  show "distinct (map fst (AList.delete (timeoutId p) ts))" by (rule distinct_delete[OF tables_inv_dts[OF i]])
  show "\<And>h. h \<in> fst ` set (AList.delete (timeoutId p) ts) \<Longrightarrow> h < nt"
    using tables_inv_ts_bound[OF i] by (auto simp: set_delete)
  show "\<And>h. rt = Some h \<Longrightarrow> h < nt"
    using i tables_inv_rt_bound by blast
  show "\<And>h r. rt = Some h \<Longrightarrow> (h, RequestTimeout r) \<notin> set (AList.delete (timeoutId p) ts)"
    using i tables_inv_rt_sep by (auto simp: set_delete)
  show "\<And>h r. (h, RequestTimeout r) \<in> set (AList.delete (timeoutId p) ts) \<Longrightarrow>
          (r, \<lparr>timeoutId = h\<rparr>) \<in> set (AList.delete rid ps)"
  proof -
    fix h r assume a: "(h, RequestTimeout r) \<in> set (AList.delete (timeoutId p) ts)"
    then have m: "(h, RequestTimeout r) \<in> set ts" and ne: "h \<noteq> timeoutId p"
      by (simp_all add: set_delete)
    have q: "(r, \<lparr>timeoutId = h\<rparr>) \<in> set ps" by (rule tables_inv_timer_pending[OF i m])
    have "r \<noteq> rid"
    proof
      assume "r = rid"
      then have "\<lparr>timeoutId = h\<rparr> = p"
        using q rp tables_inv_dps[OF i] by (metis eq_key_imp_eq_value)
      then show False using ne by auto
    qed
    then show "(r, \<lparr>timeoutId = h\<rparr>) \<in> set (AList.delete rid ps)"
      using q by (simp add: set_delete)
  qed
  show "\<And>r q. (r, q) \<in> set (AList.delete rid ps) \<Longrightarrow>
          (timeoutId q, RequestTimeout r) \<in> set (AList.delete (timeoutId p) ts)"
  proof -
    fix r q assume a: "(r, q) \<in> set (AList.delete rid ps)"
    then have m: "(r, q) \<in> set ps" and ne: "r \<noteq> rid" by (simp_all add: set_delete)
    show "(timeoutId q, RequestTimeout r) \<in> set (AList.delete (timeoutId p) ts)"
      using tables_inv_pending_timer[OF i m] other[OF m ne] by (simp add: set_delete)
  qed
qed

lemma update_fresh: "k \<notin> fst ` set xs \<Longrightarrow> AList.update k v xs = xs @ [(k, v)]"
  by (induction xs) auto

lemma tables_inv_new_request:
  assumes i: "tables_inv ps ts nid nt rt hist"
  shows "tables_inv (AList.update (show_nat nid) \<lparr>timeoutId = nt\<rparr> ps)
              (ts @ [(nt, RequestTimeout (show_nat nid))]) (Suc nid) (Suc nt) rt hist"
proof -
  have fresh: "show_nat nid \<notin> fst ` set ps"
  proof
    assume "show_nat nid \<in> fst ` set ps"
    then obtain k where "k < nid" "show_nat nid = show_nat k" using tables_inv_bound[OF i] by blast
    then show False using show_nat_inj by blast
  qed
  have fresh_hist: "show_nat nid \<notin> set hist"
  proof
    assume "show_nat nid \<in> set hist"
    then obtain k where "k < nid" "show_nat nid = show_nat k" using tables_inv_hist_bound[OF i] by blast
    then show False using show_nat_inj by blast
  qed
  have nt_fresh: "nt \<notin> fst ` set ts" using tables_inv_ts_bound[OF i] by blast
  show ?thesis
    unfolding update_fresh[OF fresh]
  proof (rule tables_invI)
    let ?ps = "ps @ [(show_nat nid, \<lparr>timeoutId = nt\<rparr>)]"
    let ?ts = "ts @ [(nt, RequestTimeout (show_nat nid))]"
    show "distinct (map fst ?ps)" using tables_inv_dps[OF i] fresh by simp
    show "\<And>rid. rid \<in> fst ` set ?ps \<Longrightarrow> \<exists>k<Suc nid. rid = show_nat k"
      using tables_inv_bound[OF i] by (auto simp: less_Suc_eq)
    show "\<And>rid. rid \<in> set hist \<Longrightarrow> \<exists>k<Suc nid. rid = show_nat k"
      using tables_inv_hist_bound[OF i] by (auto simp: less_Suc_eq)
    show "\<And>rid. rid \<in> set hist \<Longrightarrow> rid \<notin> fst ` set ?ps"
      using tables_inv_hist_fresh[OF i] fresh_hist by auto
    show "distinct hist" by (rule tables_inv_dhist[OF i])
    show "\<And>k. 0 < k \<Longrightarrow> k < Suc nid \<Longrightarrow> show_nat k \<in> fst ` set ?ps \<or> show_nat k \<in> set hist"
      using tables_inv_complete[OF i] by (auto simp: less_Suc_eq)
    show "distinct (map fst ?ts)" using tables_inv_dts[OF i] nt_fresh by simp
    show "\<And>h. h \<in> fst ` set ?ts \<Longrightarrow> h < Suc nt"
      using tables_inv_ts_bound[OF i] by (auto simp: less_Suc_eq)
    show "\<And>h. rt = Some h \<Longrightarrow> h < Suc nt"
      using i tables_inv_rt_bound less_Suc_eq by blast
    show "\<And>h rid. rt = Some h \<Longrightarrow> (h, RequestTimeout rid) \<notin> set ?ts"
    proof -
      fix h rid assume r: "rt = Some h"
      have "h < nt" using i r tables_inv_rt_bound by blast
      moreover have "(h, RequestTimeout rid) \<notin> set ts" using i r tables_inv_rt_sep by blast
      ultimately show "(h, RequestTimeout rid) \<notin> set ?ts" by simp
    qed
    show "\<And>h rid. (h, RequestTimeout rid) \<in> set ?ts \<Longrightarrow> (rid, \<lparr>timeoutId = h\<rparr>) \<in> set ?ps"
      using tables_inv_timer_pending[OF i] by auto
    show "\<And>rid p. (rid, p) \<in> set ?ps \<Longrightarrow> (timeoutId p, RequestTimeout rid) \<in> set ?ts"
      using tables_inv_pending_timer[OF i] by auto
  qed
qed

lemma tables_inv_reconnect_fired:
  assumes i: "tables_inv ps ts nid nt rt hist" and m: "(h, Reconnect) \<in> set ts"
  shows "tables_inv ps (AList.delete h ts) nid nt None hist"
proof -
  have sep: "\<And>rid. (h, RequestTimeout rid) \<notin> set ts"
  proof
    fix rid assume "(h, RequestTimeout rid) \<in> set ts"
    then have "RequestTimeout rid = Reconnect"
      using m tables_inv_dts[OF i] by (rule_tac eq_key_imp_eq_value)
    then show False by simp
  qed
  have "tables_inv ps ts nid nt (Some h) hist"
  proof (rule tables_invI)
    show "\<And>h'. Some h = Some h' \<Longrightarrow> h' < nt" using tables_inv_ts_bound[OF i] m by force
    show "\<And>h' rid. Some h = Some h' \<Longrightarrow> (h', RequestTimeout rid) \<notin> set ts" using sep by simp
  qed (use i in \<open>auto simp: tables_inv_def\<close>)
  then show ?thesis by (rule tables_inv_clear_reconnect)
qed


lemma settled_append [simp]: "settled (xs @ ys) = settled xs @ settled ys"
  by (induction xs rule: settled.induct) simp_all

lemma settled_status [simp]: "settled (map (\<lambda>l. StatusNotified l st) ls) = []"
  by (induction ls) simp_all

lemma settled_notification [simp]: "settled (map (\<lambda>l. NotificationSent l d) ls) = []"
  by (induction ls) simp_all

lemma settled_rejected [simp]: "settled (map (\<lambda>kv. Rejected (fst kv) msg) ps) = map fst ps"
  by (induction ps) simp_all

lemma bridge_inv_clearReconnectTimer: "bridge_inv b hist \<Longrightarrow> bridge_inv (clearReconnectTimer b) hist"
  by (cases "reconnectTimer b")
     (auto simp: bridge_inv_def clearReconnectTimer_def clearTimeout_def intro: tables_inv_clear_reconnect)

lemma bridge_inv_scheduleReconnect: "bridge_inv b hist \<Longrightarrow> bridge_inv (scheduleReconnect b) hist"
  by (cases "reconnectTimer b")
     (auto simp: bridge_inv_def scheduleReconnect_def setTimeout_def intro: tables_inv_schedule)

lemma bridge_inv_updateStatus:
  "bridge_inv b hist \<Longrightarrow> bridge_inv (fst (updateStatus n b)) hist \<and> settled (snd (updateStatus n b)) = []"
  by (simp add: updateStatus_eq bridge_inv_def)

lemma bridge_inv_teardown:
  assumes i: "bridge_inv b hist"
  shows "bridge_inv (fst (teardown e s b)) (hist @ settled (snd (teardown e s b)))"
proof -
  let ?b1 = "(case socket b of Some h \<Rightarrow> fst (closeSocket h b) | None \<Rightarrow> b)"
  let ?b3 = "?b1\<lparr>socket := None, status := Disconnected, pending := [],
                 timers := filter (\<lambda>t. fst t \<notin> (\<lambda>kv. timeoutId (snd kv)) ` set (pending b)) (timers b)\<rparr>"
  have f: "nextId ?b1 = nextId b" "nextTimer ?b1 = nextTimer b" "reconnectTimer ?b1 = reconnectTimer b"
    by (simp_all add: closeSocket_def split: option.splits)
  have i3: "bridge_inv ?b3 (hist @ map fst (pending b))"
    using tables_inv_reject_all[OF i[unfolded bridge_inv_def]] by (simp add: bridge_inv_def f)
  have s: "settled (snd (teardown e s b)) = map fst (pending b)"
    by (simp add: teardown_eq Let_def split: option.splits)
  have "fst (teardown e s b) = (if s \<or> no_url b then clearReconnectTimer ?b3 else scheduleReconnect ?b3)"
    by (simp add: teardown_eq Let_def)
  then show ?thesis
    using bridge_inv_clearReconnectTimer[OF i3] bridge_inv_scheduleReconnect[OF i3] by (simp add: s)
qed

lemma bridge_inv_connect:
  assumes i: "bridge_inv b hist"
  shows "bridge_inv (fst (connect hst b)) (hist @ settled (snd (connect hst b)))"
proof (cases "no_url b")
  case True
  then show ?thesis using bridge_inv_updateStatus[OF i] by (simp add: connect_def)
next
  case False
  note nu = this
  show ?thesis
  proof (cases "socket b \<noteq> None \<or> status b = Connecting")
    case True
    then show ?thesis using i nu by (auto simp: connect_def)
  next
    case False
    let ?b1 = "fst (updateStatus Connecting (clearReconnectTimer b))"
    let ?e1 = "snd (updateStatus Connecting (clearReconnectTimer b))"
    have i1: "bridge_inv ?b1 hist" and s1: "settled ?e1 = []"
      using bridge_inv_updateStatus[OF bridge_inv_clearReconnectTimer[OF i]] by simp_all
    show ?thesis
    proof (cases "wsConstructError hst (the (url ?b1))")
      case None
      then have "connect hst b =
          (?b1\<lparr>socket := Some (nextSocket ?b1),
               readyState := (readyState ?b1)(nextSocket ?b1 := WS_CONNECTING),
               nextSocket := Suc (nextSocket ?b1)\<rparr>,
           ?e1 @ [SocketCreated (nextSocket ?b1) (the (url ?b1))])"
        using nu False by (simp add: connect_def case_prod_beta)
      then show ?thesis using i1 s1 by (simp add: bridge_inv_def)
    next
      case (Some m)
      then have "connect hst b =
          (fst (teardown (Some m) False ?b1), ?e1 @ snd (teardown (Some m) False ?b1))"
        using nu False by (simp add: connect_def case_prod_beta)
      then show ?thesis using bridge_inv_teardown[OF i1, of "Some m" False] s1 by simp
    qed
  qed
qed

lemma bridge_inv_url: "bridge_inv (b\<lparr>url := u\<rparr>) hist = bridge_inv b hist"
  by (simp add: bridge_inv_def)

lemma bridge_inv_readyState: "bridge_inv (b\<lparr>readyState := r\<rparr>) hist = bridge_inv b hist"
  by (simp add: bridge_inv_def)

lemma bridge_inv_setUrl:
  assumes i: "bridge_inv b hist"
  shows "bridge_inv (fst (setUrl hst next b)) (hist @ settled (snd (setUrl hst next b)))"
proof (cases "url b = normalizeUrl next")
  case True
  note same = this
  show ?thesis
  proof (cases "normalizeUrl next")
    case None
    then have "setUrl hst next b = teardown (Some ''MCP bridge disabled by configuration.'') True b"
      using same by (simp add: setUrl_def Let_def)
    then show ?thesis using bridge_inv_teardown[OF i] by simp
  next
    case (Some u)
    then have "setUrl hst next b = (if socket b = None then connect hst b else (b, []))"
      using same by (simp add: setUrl_def Let_def case_prod_beta)
    then show ?thesis using bridge_inv_connect[OF i] i by simp
  qed
next
  case False
  note diff = this
  let ?b1 = "b\<lparr>url := normalizeUrl next\<rparr>"
  have i1: "bridge_inv ?b1 hist" using i by (simp add: bridge_inv_url)
  show ?thesis
  proof (cases "no_url ?b1")
    case True
    then have "setUrl hst next b = teardown (Some ''MCP bridge disabled by configuration.'') True ?b1"
      using diff by (simp add: setUrl_def Let_def)
    then show ?thesis using bridge_inv_teardown[OF i1] by simp
  next
    case False
    let ?t = "teardown (Some ''Reconfiguring MCP bridge endpoint.'') True ?b1"
    have "setUrl hst next b = (fst (connect hst (fst ?t)), snd ?t @ snd (connect hst (fst ?t)))"
      using diff False by (simp add: setUrl_def Let_def case_prod_beta)
    then show ?thesis
      using bridge_inv_connect[OF bridge_inv_teardown[OF i1, of "Some ''Reconfiguring MCP bridge endpoint.''" True], of hst]
      by simp
  qed
qed

lemma bridge_inv_reconnectNow:
  assumes i: "bridge_inv b hist"
  shows "bridge_inv (fst (reconnectNow hst b)) (hist @ settled (snd (reconnectNow hst b)))"
  using bridge_inv_updateStatus[OF i] bridge_inv_connect[OF i] i
  by (auto simp: reconnectNow_def closeSocket_def bridge_inv_readyState split: option.splits)

lemma bridge_inv_handleMessage:
  assumes i: "bridge_inv b hist"
  shows "bridge_inv (fst (handleMessage hst raw b)) (hist @ settled (snd (handleMessage hst raw b)))"
proof (cases "jsonParse hst raw")
  case None
  then show ?thesis using i by (simp add: handleMessage_def)
next
  case (Some data)
  note d = this
  show ?thesis
  proof (cases "typeof_string (getp data ''id'') \<or> typeof_number (getp data ''id'')")
    case False
    then show ?thesis using i d by (simp add: handleMessage_def)
  next
    case True
    note t = this
    let ?key = "js_String (numStr hst) (getp data ''id'')"
    show ?thesis
    proof (cases "map_of (pending b) ?key")
      case None
      then show ?thesis using i d t by (simp add: handleMessage_def Let_def)
    next
      case (Some p)
      then have m: "(?key, p) \<in> set (pending b)" by (rule map_of_SomeD)
      have i1: "bridge_inv (clearTimeout (timeoutId p) (b\<lparr>pending := AList.delete ?key (pending b)\<rparr>)) (hist @ [?key])"
        using tables_inv_settle_one[OF i[unfolded bridge_inv_def] m] by (simp add: bridge_inv_def clearTimeout_def)
      show ?thesis
        using i1 d t Some by (simp add: handleMessage_def Let_def)
    qed
  qed
qed

lemma bridge_inv_sendRequest:
  assumes i: "bridge_inv b hist" and bound: "nextId b < 9007199254740992"
  shows "bridge_inv (fst (snd (sendRequest method params b))) (hist @ settled (snd (snd (sendRequest method params b))))"
proof (cases "socket b")
  case None
  then show ?thesis using i by (simp add: sendRequest_def)
next
  case (Some h)
  show ?thesis
  proof (cases "readyState b h = WS_OPEN")
    case False
    then show ?thesis using i Some by (simp add: sendRequest_def)
  next
    case True
    then show ?thesis
      using Some bound tables_inv_new_request[OF i[unfolded bridge_inv_def]]
      by (simp add: sendRequest_def setTimeout_def Let_def bridge_inv_def increment_def)
  qed
qed

lemma bridge_inv_bridgeCallTool:
  assumes i: "bridge_inv b hist" and bound: "nextId b < 9007199254740992"
  shows "bridge_inv (fst (snd (bridgeCallTool name args b))) (hist @ settled (snd (snd (bridgeCallTool name args b))))"
  using bridge_inv_sendRequest[OF i bound] i by (simp add: bridgeCallTool_def)

lemma bridge_inv_timerFired:
  assumes i: "bridge_inv b hist"
  shows "bridge_inv (fst (timerFired hst h b)) (hist @ settled (snd (timerFired hst h b)))"
proof (cases "map_of (timers b) h")
  case None
  then show ?thesis using i by (simp add: timerFired_def)
next
  case (Some cb)
  then have m: "(h, cb) \<in> set (timers b)" by (rule map_of_SomeD)
  show ?thesis
  proof (cases cb)
    case (RequestTimeout rid)
    have p: "(rid, \<lparr>timeoutId = h\<rparr>) \<in> set (pending b)"
      using tables_inv_timer_pending[OF i[unfolded bridge_inv_def]] m RequestTimeout by simp
    show ?thesis
      using tables_inv_settle_one[OF i[unfolded bridge_inv_def] p] Some RequestTimeout
      by (simp add: timerFired_def Let_def bridge_inv_def)
  next
    case Reconnect
    have "bridge_inv (b\<lparr>timers := AList.delete h (timers b), reconnectTimer := None\<rparr>) hist"
      using tables_inv_reconnect_fired[OF i[unfolded bridge_inv_def]] m Reconnect by (simp add: bridge_inv_def)
    from bridge_inv_connect[OF this, of hst] show ?thesis
      using Some Reconnect by (simp add: timerFired_def Let_def)
  qed
qed

lemma bridge_inv_step:
  assumes i: "bridge_inv b hist" and bound: "nextId b < 9007199254740992"
  shows "bridge_inv (fst (bridge_step hst ev b)) (hist @ settled (snd (bridge_step hst ev b)))"
proof (cases ev)
  case (SetUrl u)
  then show ?thesis using bridge_inv_setUrl[OF i] by simp
next
  case (CallTool name args)
  then show ?thesis using bridge_inv_bridgeCallTool[OF i bound, of name args] by (simp add: case_prod_beta)
next
  case ReconnectNow
  then show ?thesis using bridge_inv_reconnectNow[OF i] by simp
next
  case (OnStatusChange l)
  then show ?thesis using i by (simp add: onStatusChange_def bridge_inv_def)
next
  case (OnNotification l)
  then show ?thesis using i by (simp add: onNotification_def bridge_inv_def)
next
  case (OffStatusChange l)
  then show ?thesis using i by (simp add: offStatusChange_def bridge_inv_def)
next
  case (OffNotification l)
  then show ?thesis using i by (simp add: offNotification_def bridge_inv_def)
next
  case (TimerFired h)
  then show ?thesis using bridge_inv_timerFired[OF i] by simp
next
  case (SocketOpened h)
  then show ?thesis
    using i bridge_inv_updateStatus[of "b\<lparr>readyState := (readyState b)(h := WS_OPEN)\<rparr>" hist Connected]
    by (simp add: socketOpened_def bridge_inv_readyState)
next
  case (SocketMessage h raw)
  then show ?thesis using i bridge_inv_handleMessage[OF i] by (simp add: socketMessage_def)
next
  case (SocketClosed h)
  then show ?thesis
    using i bridge_inv_teardown[of "b\<lparr>readyState := (readyState b)(h := WS_CLOSED)\<rparr>" hist None False]
    by (simp add: socketClosed_def bridge_inv_readyState)
qed

lemma nextId_clearReconnectTimer [simp]: "nextId (clearReconnectTimer b) = nextId b"
  by (simp add: clearReconnectTimer_def clearTimeout_def split: option.splits)

lemma nextId_scheduleReconnect [simp]: "nextId (scheduleReconnect b) = nextId b"
  by (simp add: scheduleReconnect_def setTimeout_def)

lemma nextId_updateStatus [simp]: "nextId (fst (updateStatus n b)) = nextId b"
  by (simp add: updateStatus_eq)

lemma nextId_teardown [simp]: "nextId (fst (teardown e s b)) = nextId b"
  by (simp add: teardown_eq Let_def closeSocket_def split: option.splits)

lemma nextId_connect [simp]: "nextId (fst (connect hst b)) = nextId b"
  by (simp add: connect_def case_prod_beta split: option.splits)

lemma nextId_setUrl [simp]: "nextId (fst (setUrl hst next b)) = nextId b"
  by (simp add: setUrl_def Let_def case_prod_beta)

lemma nextId_reconnectNow [simp]: "nextId (fst (reconnectNow hst b)) = nextId b"
  by (simp add: reconnectNow_def closeSocket_def split: option.splits)

lemma nextId_handleMessage [simp]: "nextId (fst (handleMessage hst raw b)) = nextId b"
  by (simp add: handleMessage_def Let_def clearTimeout_def split: option.splits)

lemma nextId_timerFired [simp]: "nextId (fst (timerFired hst h b)) = nextId b"
  by (simp add: timerFired_def Let_def split: option.splits timer_callback.splits)

lemma bridgeCallTool_Inl:
  "fst (bridgeCallTool name args b) = Inl e \<Longrightarrow> fst (snd (bridgeCallTool name args b)) = b"
  by (auto simp: bridgeCallTool_def sendRequest_def setTimeout_def Let_def
      split: option.splits if_splits)

lemma bridgeCallTool_Inr:
  "fst (bridgeCallTool name args b) = Inr rid \<Longrightarrow>
   rid = show_nat (nextId b)
   \<and> nextId (fst (snd (bridgeCallTool name args b))) = increment (nextId b)"
  by (auto simp: bridgeCallTool_def sendRequest_def setTimeout_def clearTimeout_def Let_def
      split: option.splits if_splits)

lemma nextId_bridgeCallTool_mono:
  "nextId b \<le> nextId (fst (snd (bridgeCallTool name args b)))"
proof (cases "fst (bridgeCallTool name args b)")
  case (Inl e)
  then show ?thesis using bridgeCallTool_Inl[OF Inl] by simp
next
  case (Inr rid)
  then show ?thesis using bridgeCallTool_Inr[OF Inr] by (simp add: increment_def)
qed

lemma nextId_step_other:
  assumes "\<And>name args. ev \<noteq> CallTool name args"
  shows "nextId (fst (bridge_step hst ev b)) = nextId b"
proof (cases ev)
  case (CallTool name args)
  then show ?thesis using assms by blast
qed (simp_all add: onStatusChange_def onNotification_def offStatusChange_def offNotification_def
        socketOpened_def socketMessage_def socketClosed_def)

lemma nextId_step_mono: "nextId b \<le> nextId (fst (bridge_step hst ev b))"
proof (cases "\<exists>name args. ev = CallTool name args")
  case True
  then show ?thesis using nextId_bridgeCallTool_mono by (auto simp: case_prod_beta)
next
  case False
  then show ?thesis using nextId_step_other[of ev hst b] by simp
qed

lemma run_Cons: "fst (run hst (ev # inputs) b) = fst (run hst inputs (fst (bridge_step hst ev b)))"
  by (simp add: case_prod_beta)

lemma nextId_run_mono: "nextId b \<le> nextId (fst (run hst inputs b))"
proof (induction inputs arbitrary: b)
  case Nil
  then show ?case by simp
next
  case (Cons ev inputs)
  have "nextId b \<le> nextId (fst (bridge_step hst ev b))" by (rule nextId_step_mono)
  also have "\<dots> \<le> nextId (fst (run hst inputs (fst (bridge_step hst ev b))))" by (rule Cons.IH)
  finally show ?case unfolding run_Cons .
qed

lemma bridge_inv_run:
  "bridge_inv b hist \<Longrightarrow> nextId (fst (run hst inputs b)) < 9007199254740992 \<Longrightarrow>
   bridge_inv (fst (run hst inputs b)) (hist @ settled (snd (run hst inputs b)))"
proof (induction inputs arbitrary: b hist)
  case Nil
  then show ?case by simp
next
  case (Cons ev inputs)
  let ?b1 = "fst (bridge_step hst ev b)"
  have fin: "nextId (fst (run hst inputs ?b1)) < 9007199254740992"
    using Cons.prems(2) unfolding run_Cons .
  have "nextId b \<le> nextId ?b1" by (rule nextId_step_mono)
  also have "\<dots> \<le> nextId (fst (run hst inputs ?b1))" by (rule nextId_run_mono)
  finally have bound: "nextId b < 9007199254740992" using fin by simp
  have 1: "bridge_inv ?b1 (hist @ settled (snd (bridge_step hst ev b)))"
    by (rule bridge_inv_step[OF Cons.prems(1) bound])
  from Cons.IH[OF 1 fin] show ?case
    by (simp add: case_prod_beta)
qed

text \<open>
  While the counter is below \<open>2^53\<close>, the calls of a run that were given a request have
  the ids that print the numbers from the counter at the start up to the counter at the
  end, excluded.
\<close>

lemma issued_Cons:
  "issued hst (ev # inputs) b =
     (case ev of
        CallTool name args \<Rightarrow>
          (case fst (bridgeCallTool name args b) of Inl e \<Rightarrow> [] | Inr rid \<Rightarrow> [rid])
      | _ \<Rightarrow> [])
     @ issued hst inputs (fst (bridge_step hst ev b))"
  by (cases ev) (auto split: prod.splits sum.splits)

lemma issued_eq:
  "nextId (fst (run hst inputs b)) < 9007199254740992 \<Longrightarrow>
   issued hst inputs b = map show_nat [nextId b..<nextId (fst (run hst inputs b))]"
proof (induction inputs arbitrary: b)
  case Nil
  then show ?case by simp
next
  case (Cons ev inputs)
  let ?b1 = "fst (bridge_step hst ev b)"
  let ?fin = "nextId (fst (run hst inputs ?b1))"
  have fin: "?fin < 9007199254740992"
    using Cons.prems unfolding run_Cons .
  have ih: "issued hst inputs ?b1 = map show_nat [nextId ?b1..<?fin]"
    by (rule Cons.IH[OF fin])
  have le: "nextId ?b1 \<le> ?fin" by (rule nextId_run_mono)
  show ?case
  proof (cases "\<exists>name args. ev = CallTool name args")
    case False
    then have "nextId ?b1 = nextId b" using nextId_step_other[of ev hst b] by simp
    moreover have "issued hst (ev # inputs) b = issued hst inputs ?b1"
      using False by (cases ev) simp_all
    ultimately show ?thesis using ih unfolding run_Cons by simp
  next
    case True
    then obtain name args where ev: "ev = CallTool name args" by blast
    have b1: "?b1 = fst (snd (bridgeCallTool name args b))"
      by (simp add: ev case_prod_beta)
    show ?thesis
    proof (cases "fst (bridgeCallTool name args b)")
      case (Inl e)
      then have "?b1 = b" using bridgeCallTool_Inl[OF Inl] b1 by simp
      moreover have "issued hst (ev # inputs) b = issued hst inputs ?b1"
        using Inl by (simp add: issued_Cons ev)
      ultimately show ?thesis using ih unfolding run_Cons by simp
    next
      case (Inr rid)
      have rid: "rid = show_nat (nextId b)"
        and n1: "nextId ?b1 = increment (nextId b)"
        using bridgeCallTool_Inr[OF Inr] b1 by simp_all
      have "nextId b \<le> nextId ?b1" by (rule nextId_step_mono)
      then have "nextId b < 9007199254740992" using le fin by simp
      then have s: "nextId ?b1 = Suc (nextId b)" using n1 by (simp add: increment_def)
      have lt: "nextId b < ?fin" using s le by simp
      have "issued hst (ev # inputs) b = show_nat (nextId b) # issued hst inputs ?b1"
        using Inr rid by (simp add: issued_Cons ev)
      also have "\<dots> = show_nat (nextId b) # map show_nat [Suc (nextId b)..<?fin]"
        using ih s by simp
      also have "\<dots> = map show_nat [nextId b..<?fin]"
        using lt by (simp add: upt_conv_Cons)
      finally show ?thesis unfolding run_Cons .
    qed
  qed
qed

lemma count_list_distinct: "distinct xs \<Longrightarrow> x \<in> set xs \<Longrightarrow> count_list xs x = 1"
  by (induction xs) (auto simp: count_list_0_iff)

lemma bridge_inv_initial: "bridge_inv initial []"
  by (simp add: bridge_inv_def tables_inv_def initial_def)


lemma timed_out_bridge_reachable:
  "run example_host
     [OnStatusChange 7, SetUrl (Some ''ws://bridge.example''), SocketOpened 0,
      CallTool (JStr ''list_pages'') (JObj []), TimerFired 0] initial =
   (timed_out_bridge,
    [StatusNotified 7 Disconnected, StatusNotified 7 Connecting,
     SocketCreated 0 ''ws://bridge.example'', StatusNotified 7 Connected,
     SocketSend 0 (JObj [(''jsonrpc'', JStr ''2.0''), (''id'', JStr ''1''),
                         (''method'', JStr ''tools/call''),
                         (''params'', JObj [(''name'', JStr ''list_pages''), (''arguments'', JObj [])])]),
     Rejected ''1'' ''mcp-timeout''])"
  by (simp add: initial_def timed_out_bridge_def example_host_def onStatusChange_def setUrl_def
      normalizeUrl_def trim_def trimEnd_def white_space1_def white_space2_def
      white_space3_def teardown_eq no_url_def clearReconnectTimer_def
      connect_def updateStatus_eq socketOpened_def bridgeCallTool_def bridgeIsConnected_def
      sendRequest_def setTimeout_def increment_def show_nat_1 timerFired_def Let_def)

lemma run_append:
  "run hst (xs @ ys) b =
     (case run hst xs b of (b1, e1) \<Rightarrow> (case run hst ys b1 of (b2, e2) \<Rightarrow> (b2, e1 @ e2)))"
  by (induction xs arbitrary: b) (simp_all add: case_prod_beta)

text \<open>
  The bridge whose counter has stopped is reachable: a connected bridge gets there by
  calls that time out one after the other.
\<close>

lemma idle_bridge_start:
  "fst (run example_host
          [OnStatusChange 7, SetUrl (Some ''ws://bridge.example''), SocketOpened 0] initial)
     = idle_bridge 0"
  by (simp add: initial_def idle_bridge_def example_host_def onStatusChange_def setUrl_def
      normalizeUrl_def trim_def trimEnd_def white_space1_def white_space2_def
      white_space3_def teardown_eq no_url_def clearReconnectTimer_def
      connect_def updateStatus_eq socketOpened_def Let_def)

lemma idle_bridge_next:
  "Suc n < 9007199254740992 \<Longrightarrow>
   fst (run example_host [CallTool (JStr ''list_pages'') (JObj []), TimerFired n] (idle_bridge n))
     = idle_bridge (Suc n)"
  by (simp add: idle_bridge_def bridgeCallTool_def bridgeIsConnected_def sendRequest_def
      setTimeout_def timerFired_def increment_def Let_def)

lemma idle_bridge_reachable:
  "n < 9007199254740992 \<Longrightarrow> \<exists>inputs. fst (run example_host inputs initial) = idle_bridge n"
proof (induction n)
  case 0
  show ?case using idle_bridge_start by blast
next
  case (Suc n)
  then obtain inputs where i: "fst (run example_host inputs initial) = idle_bridge n"
    by auto
  have "fst (run example_host
               (inputs @ [CallTool (JStr ''list_pages'') (JObj []), TimerFired n]) initial)
          = idle_bridge (Suc n)"
    using i idle_bridge_next[OF Suc.prems]
    by (simp add: run_append case_prod_beta del: run.simps)
  then show ?case by blast
qed

lemma saturated_bridge_reachable:
  "\<exists>inputs. fst (run example_host inputs initial) = saturated_bridge"
  unfolding saturated_bridge_def by (rule idle_bridge_reachable) simp

lemma show_nat_2_53: "show_nat 9007199254740992 = ''9007199254740992''"
  by (simp add: show_nat.simps digit_char_def)

text \<open>
  Claim C8, as amended.  In every state \<open>b\<close> the bridge reaches from its initial state,
  by any sequence of calls, reconfigurations, socket events and timers, with effects
  \<open>effs\<close>, as long as the request counter is below \<open>2^53\<close>: the calls that were given a
  request have ids different from one another; each of them is either still pending, with
  no outcome so far, or no longer pending, with exactly one outcome (a resolve or a reject)
  in the whole run; no request is settled twice; every pending call has its timeout timer
  armed, and when that timer fires the call is rejected with \<^verbatim>\<open>mcp-timeout\<close> and its pending
  entry is removed; and a frame that carries the id of a request already settled (so, of
  one that timed out, however much later the frame arrives) is ignored: it changes nothing
  and settles nothing.
\<close>

theorem C8_timeout_single_outcome:
  assumes r: "run hst inputs initial = (b, effs)"
      and bound: "nextId b < 9007199254740992"
  shows "distinct (issued hst inputs initial)
       \<and> (\<forall>rid\<in>set (issued hst inputs initial).
              (rid \<in> fst ` set (pending b) \<and> count_list (settled effs) rid = 0)
            \<or> (rid \<notin> fst ` set (pending b) \<and> count_list (settled effs) rid = 1))
       \<and> distinct (settled effs)
       \<and> (\<forall>rid p. (rid, p) \<in> set (pending b) \<longrightarrow>
              map_of (timers b) (timeoutId p) = Some (RequestTimeout rid)
            \<and> snd (timerFired hst (timeoutId p) b) = [Rejected rid ''mcp-timeout'']
            \<and> rid \<notin> fst ` set (pending (fst (timerFired hst (timeoutId p) b))))
       \<and> (\<forall>h raw data.
              jsonParse hst raw = Some data
            \<longrightarrow> typeof_string (getp data ''id'') \<or> typeof_number (getp data ''id'')
            \<longrightarrow> js_String (numStr hst) (getp data ''id'') \<in> set (settled effs)
            \<longrightarrow> bridge_step hst (SocketMessage h raw) b = (b, []))"
proof -
  have fin: "fst (run hst inputs initial) = b" "snd (run hst inputs initial) = effs"
    using r by simp_all
  have i: "bridge_inv b (settled effs)"
    using bridge_inv_run[OF bridge_inv_initial, of hst inputs] bound fin by simp
  note i5 = i[unfolded bridge_inv_def]
  have iss: "issued hst inputs initial = map show_nat [Suc 0..<nextId b]"
    using issued_eq[of hst inputs initial] bound fin by (simp add: initial_def)
  have zero: "distinct (issued hst inputs initial)"
    unfolding iss by (simp add: distinct_map inj_on_def show_nat_inj)
  have one: "distinct (settled effs)" by (rule tables_inv_dhist[OF i5])
  have acc: "(rid \<in> fst ` set (pending b) \<and> count_list (settled effs) rid = 0)
            \<or> (rid \<notin> fst ` set (pending b) \<and> count_list (settled effs) rid = 1)"
    if m: "rid \<in> set (issued hst inputs initial)" for rid
  proof -
    from m obtain k where "k \<in> set [Suc 0..<nextId b]" and rk: "rid = show_nat k"
      unfolding iss by auto
    then have k: "0 < k" "k < nextId b" "rid = show_nat k"
      by simp_all
    show ?thesis
    proof (cases "rid \<in> fst ` set (pending b)")
      case True
      then have "rid \<notin> set (settled effs)"
        using tables_inv_hist_fresh[OF i5] by blast
      then show ?thesis using True by (simp add: count_list_0_iff)
    next
      case False
      then have "rid \<in> set (settled effs)"
        using tables_inv_complete[OF i5 k(1) k(2)] k(3) by simp
      then show ?thesis using False count_list_distinct[OF one] by simp
    qed
  qed
  have two: "map_of (timers b) (timeoutId p) = Some (RequestTimeout rid)
            \<and> snd (timerFired hst (timeoutId p) b) = [Rejected rid ''mcp-timeout'']
            \<and> rid \<notin> fst ` set (pending (fst (timerFired hst (timeoutId p) b)))"
    if rp: "(rid, p) \<in> set (pending b)" for rid p
  proof -
    have m: "map_of (timers b) (timeoutId p) = Some (RequestTimeout rid)"
      using tables_inv_pending_timer[OF i5 rp] tables_inv_dts[OF i5] by (rule_tac map_of_is_SomeI)
    then show ?thesis by (auto simp: timerFired_def Let_def set_delete)
  qed
  have three: "bridge_step hst (SocketMessage h raw) b = (b, [])"
    if d: "jsonParse hst raw = Some data"
      and t: "typeof_string (getp data ''id'') \<or> typeof_number (getp data ''id'')"
      and k: "js_String (numStr hst) (getp data ''id'') \<in> set (settled effs)"
    for h raw data
  proof -
    have "js_String (numStr hst) (getp data ''id'') \<notin> fst ` set (pending b)"
      by (rule tables_inv_hist_fresh[OF i5 k])
    then have "map_of (pending b) (js_String (numStr hst) (getp data ''id'')) = None"
      by (simp add: map_of_eq_None_iff)
    then have "handleMessage hst raw b = (b, [])"
      using d t by (simp add: handleMessage_def Let_def)
    then show ?thesis by (simp add: socketMessage_def)
  qed
  have acc_all: "\<forall>rid\<in>set (issued hst inputs initial).
              (rid \<in> fst ` set (pending b) \<and> count_list (settled effs) rid = 0)
            \<or> (rid \<notin> fst ` set (pending b) \<and> count_list (settled effs) rid = 1)"
    by (intro ballI acc)
  have rest: "(\<forall>rid p. (rid, p) \<in> set (pending b) \<longrightarrow>
              map_of (timers b) (timeoutId p) = Some (RequestTimeout rid)
            \<and> snd (timerFired hst (timeoutId p) b) = [Rejected rid ''mcp-timeout'']
            \<and> rid \<notin> fst ` set (pending (fst (timerFired hst (timeoutId p) b))))
       \<and> (\<forall>h raw data.
              jsonParse hst raw = Some data
            \<longrightarrow> typeof_string (getp data ''id'') \<or> typeof_number (getp data ''id'')
            \<longrightarrow> js_String (numStr hst) (getp data ''id'') \<in> set (settled effs)
            \<longrightarrow> bridge_step hst (SocketMessage h raw) b = (b, []))"
    using two three by blast
  show ?thesis
    using zero acc_all one rest by (intro conjI) (assumption | erule conjunct1 | erule conjunct2)+
qed

theorem C8_timeout_single_outcome_witness:
  "nextId busy_bridge < 9007199254740992
   \<and> nextId timed_out_bridge < 9007199254740992
   \<and> snd (timerFired example_host 0 busy_bridge) = [Rejected ''1'' ''mcp-timeout'']
   \<and> issued example_host
        [OnStatusChange 7, SetUrl (Some ''ws://bridge.example''), SocketOpened 0,
         CallTool (JStr ''list_pages'') (JObj []), TimerFired 0] initial = [''1'']
   \<and> ''1'' \<notin> fst ` set (pending timed_out_bridge)
   \<and> count_list
        (settled (snd (run example_host
           [OnStatusChange 7, SetUrl (Some ''ws://bridge.example''), SocketOpened 0,
            CallTool (JStr ''list_pages'') (JObj []), TimerFired 0] initial))) ''1'' = 1
   \<and> bridge_step example_host (SocketMessage 0 ''<response 1>'') timed_out_bridge = (timed_out_bridge, [])"
proof -
  obtain effs1 where r1:
    "run example_host [OnStatusChange 7, SetUrl (Some ''ws://bridge.example''), SocketOpened 0,
           CallTool (JStr ''list_pages'') (JObj [])] initial = (busy_bridge, effs1)"
    using busy_bridge_reachable by (metis fst_conv surj_pair)
  have n1: "nextId busy_bridge < 9007199254740992"
    by (simp add: busy_bridge_def)
  have n2: "nextId timed_out_bridge < 9007199254740992"
    by (simp add: timed_out_bridge_def)
  have p: "(''1'', \<lparr>timeoutId = 0\<rparr>) \<in> set (pending busy_bridge)"
    by (simp add: busy_bridge_def)
  have a: "snd (timerFired example_host 0 busy_bridge) = [Rejected ''1'' ''mcp-timeout'']"
    using C8_timeout_single_outcome[OF r1 n1] p by fastforce
  have d: "jsonParse example_host ''<response 1>'' = Some (JObj [(''id'', JStr ''1''), (''result'', JNull)])"
    by (simp add: example_host_def)
  have b: "bridge_step example_host (SocketMessage 0 ''<response 1>'') timed_out_bridge = (timed_out_bridge, [])"
    using C8_timeout_single_outcome[OF timed_out_bridge_reachable n2] d
    by (simp del: bridge_step.simps)
  have iss: "issued example_host
        [OnStatusChange 7, SetUrl (Some ''ws://bridge.example''), SocketOpened 0,
         CallTool (JStr ''list_pages'') (JObj []), TimerFired 0] initial = [''1'']"
    using issued_eq[of example_host
        "[OnStatusChange 7, SetUrl (Some ''ws://bridge.example''), SocketOpened 0,
         CallTool (JStr ''list_pages'') (JObj []), TimerFired 0]" initial]
      timed_out_bridge_reachable n2
    by (simp add: initial_def timed_out_bridge_def show_nat_1 numeral_2_eq_2
        del: run.simps issued.simps)
  have np: "''1'' \<notin> fst ` set (pending timed_out_bridge)"
    by (simp add: timed_out_bridge_def)
  have c: "count_list
        (settled (snd (run example_host
           [OnStatusChange 7, SetUrl (Some ''ws://bridge.example''), SocketOpened 0,
            CallTool (JStr ''list_pages'') (JObj []), TimerFired 0] initial))) ''1'' = 1"
    using C8_timeout_single_outcome[OF timed_out_bridge_reachable n2] iss np
    by (simp add: timed_out_bridge_reachable del: run.simps issued.simps)
  show ?thesis using n1 n2 a iss np c b by blast
qed

text \<open>
  Claim C8 as stated fails once the request counter has stopped at \<open>2^53\<close>: every further
  call gets the id \<open>9007199254740992\<close>.  Such a call times out and is rejected with
  \<^verbatim>\<open>mcp-timeout\<close>; the next call gets the same id; and a frame that carries this id is then
  delivered (the request with this id is resolved), not ignored.
\<close>

theorem C8_counterexample:
  "fst (bridgeCallTool (JStr ''list_pages'') (JObj []) saturated_bridge) = Inr ''9007199254740992''
   \<and> snd (run example_host
            [CallTool (JStr ''list_pages'') (JObj []), TimerFired 9007199254740991]
            saturated_bridge) =
       [SocketSend 0 (JObj [(''jsonrpc'', JStr ''2.0''), (''id'', JStr ''9007199254740992''),
                            (''method'', JStr ''tools/call''),
                            (''params'', JObj [(''name'', JStr ''list_pages''), (''arguments'', JObj [])])]),
        Rejected ''9007199254740992'' ''mcp-timeout'']
   \<and> fst (bridgeCallTool (JStr ''list_pages'') (JObj [])
            (fst (run example_host
                    [CallTool (JStr ''list_pages'') (JObj []), TimerFired 9007199254740991]
                    saturated_bridge))) = Inr ''9007199254740992''
   \<and> snd (bridge_step example_host (SocketMessage 0 ''<response 9007199254740992>'')
            (fst (run example_host
                    [CallTool (JStr ''list_pages'') (JObj []), TimerFired 9007199254740991,
                     CallTool (JStr ''list_pages'') (JObj [])]
                    saturated_bridge))) =
       [Resolved ''9007199254740992'' JNull]
   \<and> settled (snd (run example_host
            [CallTool (JStr ''list_pages'') (JObj []), TimerFired 9007199254740991,
             CallTool (JStr ''list_pages'') (JObj []),
             SocketMessage 0 ''<response 9007199254740992>'']
            saturated_bridge)) = [''9007199254740992'', ''9007199254740992'']"
  by (simp add: saturated_bridge_def idle_bridge_def example_host_def bridgeCallTool_def
      bridgeIsConnected_def sendRequest_def setTimeout_def timerFired_def increment_def
      socketMessage_def handleMessage_def clearTimeout_def show_nat_2_53 Let_def)

end
